theory Spec2Isabelle
  imports Main "HOL-Library.Sublist" "HOL-Library.List_Lexorder" "HOL-Library.Char_ord"
    "HOL-Library.Word"
begin

section \<open>Harmony Hub: the data-consistency layer over the document store\<close>

text \<open>
  The development embeds the service layer of the application
  (\<^verbatim>\<open>services/firebaseConnection.ts\<close>, \<^verbatim>\<open>services/concertService.ts\<close>,
  \<^verbatim>\<open>services/feedService.ts\<close>, \<^verbatim>\<open>services/searchService.ts\<close>) and the two callable
  cloud functions of \<^verbatim>\<open>functions/src/index.ts\<close>. Asynchronous functions become functions
  on an explicit store; a promise is the outcome it ends with.

  Identifiers, paths, names, error codes and messages are byte strings, and the case
  mapping on them is the ASCII one. The text of a review and of a comment, which the code
  trims, is a sequence of UTF-16 code units, as a JavaScript string is. Numbers are
  integers.
\<close>

subsection \<open>Strings\<close>

definition toLowerChar :: "char \<Rightarrow> char" where
  "toLowerChar c =
     (case map_of (zip ''ABCDEFGHIJKLMNOPQRSTUVWXYZ'' ''abcdefghijklmnopqrstuvwxyz'') c of
        Some l \<Rightarrow> l
      | None \<Rightarrow> c)"

definition toLowerCase :: "string \<Rightarrow> string" where
  "toLowerCase s = map toLowerChar s"

text \<open>\<^verbatim>\<open>s.includes(t)\<close>: \<open>t\<close> occurs in \<open>s\<close> as a contiguous run.\<close>

definition includes_str :: "string \<Rightarrow> string \<Rightarrow> bool" where
  "includes_str s searchString = sublist searchString s"

definition endsWith :: "string \<Rightarrow> string \<Rightarrow> bool" where
  "endsWith s searchString = suffix searchString s"

text \<open>
  \<^verbatim>\<open>s.trim()\<close> removes the white space and the line terminators of ECMAScript at both
  ends of \<open>s\<close>. White space is U+0009 (tab), U+000B (vertical tab), U+000C (form feed),
  U+FEFF (byte order mark) and the space separators of Unicode: U+0020, U+00A0, U+1680,
  U+2000 to U+200A, U+202F, U+205F and U+3000. The line terminators are U+000A, U+000D,
  U+2028 and U+2029. Each of them is one UTF-16 code unit.
\<close>

type_synonym utf16 = "16 word list"

definition whiteSpace :: "16 word list" where
  "whiteSpace =
     [0x0009, 0x000B, 0x000C, 0xFEFF, 0x0020, 0x00A0, 0x1680, 0x2000, 0x2001, 0x2002, 0x2003,
      0x2004, 0x2005, 0x2006, 0x2007, 0x2008, 0x2009, 0x200A, 0x202F, 0x205F, 0x3000]"

definition lineTerminator :: "16 word list" where
  "lineTerminator = [0x000A, 0x000D, 0x2028, 0x2029]"

definition isWhiteSpace :: "16 word \<Rightarrow> bool" where
  "isWhiteSpace c = (c \<in> set (whiteSpace @ lineTerminator))"

definition trim :: "utf16 \<Rightarrow> utf16" where
  "trim s = rev (dropWhile isWhiteSpace (rev (dropWhile isWhiteSpace s)))"

text \<open>The code units of a string of ASCII characters.\<close>

definition codeUnits :: "string \<Rightarrow> utf16" where
  "codeUnits s = map of_char s"

text \<open>\<^verbatim>\<open>s.split('/').pop()\<close>: what follows the last slash (all of \<open>s\<close> when it has none).\<close>

definition lastSegment :: "string \<Rightarrow> string" where
  "lastSegment s = rev (takeWhile (\<lambda>c. c \<noteq> CHR ''/'') (rev s))"

subsection \<open>Errors and the connection manager\<close>

text \<open>A thrown value, read the way the code reads it: \<^verbatim>\<open>error?.code\<close> and
  \<^verbatim>\<open>error?.message\<close>, each of which may be missing.\<close>

record js_error =
  code :: "string option"
  message :: "string option"

datatype ConnectionState = connecting | connected | disconnected | error

text \<open>What a promise does: it resolves, it rejects, or it stays pending (the call was
  pushed on the retry queue and nothing has replayed the queue yet).\<close>

datatype 'a outcome = Resolved 'a | Rejected js_error | Pending

text \<open>\<^verbatim>\<open>const x = await m; k(x)\<close>: a rejection of \<open>m\<close> is thrown at the \<^verbatim>\<open>await\<close>, and
  nothing after a pending \<open>m\<close> runs.\<close>

definition await :: "'a outcome \<times> 's \<Rightarrow> ('a \<Rightarrow> 's \<Rightarrow> 'b outcome \<times> 's) \<Rightarrow> 'b outcome \<times> 's" where
  "await m k =
     (case m of
        (Resolved a, s) \<Rightarrow> k a s
      | (Rejected e, s) \<Rightarrow> (Rejected e, s)
      | (Pending, s) \<Rightarrow> (Pending, s))"

text \<open>\<^verbatim>\<open>m.catch(() => d)\<close>, and \<^verbatim>\<open>try { return await m } catch { return d }\<close>.\<close>

definition catchDefault :: "'a outcome \<times> 's \<Rightarrow> 'a \<Rightarrow> 'a outcome \<times> 's" where
  "catchDefault m d =
     (case m of
        (Resolved a, s) \<Rightarrow> (Resolved a, s)
      | (Rejected e, s) \<Rightarrow> (Resolved d, s)
      | (Pending, s) \<Rightarrow> (Pending, s))"

text \<open>The observable steps of one \<^verbatim>\<open>executeWithRetry\<close> call: an invocation of the operation
  in attempt \<open>n\<close>, and a wait of so many milliseconds.\<close>

datatype event = Invoke nat | Delay nat

definition maxRetries :: nat where
  "maxRetries = 3"

definition retryDelay :: nat where
  "retryDelay = 1000"

definition networkErrorCodes :: "string list" where
  "networkErrorCodes =
     [''unavailable'', ''deadline-exceeded'', ''cancelled'', ''failed-precondition'']"

definition isNetworkError :: "js_error \<Rightarrow> bool" where
  "isNetworkError err =
     (let errorMessage = (case message err of Some m \<Rightarrow> toLowerCase m | None \<Rightarrow> []);
          errorCode = (case code err of Some c \<Rightarrow> toLowerCase c | None \<Rightarrow> [])
      in list_ex (\<lambda>c. includes_str errorCode c) networkErrorCodes \<or>
         includes_str errorMessage ''offline'' \<or>
         includes_str errorMessage ''network'' \<or>
         includes_str errorMessage ''connection'')"

text \<open>
  The \<^verbatim>\<open>for\<close> loop of \<^verbatim>\<open>executeWithRetry\<close>, from attempt \<open>attempt\<close> on. An operation is a
  function on the state it works on, returning what its promise did together with the
  state it left behind (an operation that throws keeps the effects it had before). The
  connection state is the one the manager holds during the call; when it is not
  \<open>connected\<close> the operation is pushed on the retry queue and the promise returned stays
  pending, the operation not having run. When the loop ends with \<^verbatim>\<open>lastError\<close> never
  assigned, the value thrown is \<^verbatim>\<open>undefined\<close>: an error with neither code nor message.
\<close>

function executeWithRetry_loop ::
  "ConnectionState \<Rightarrow> ('s \<Rightarrow> 'a outcome \<times> 's) \<Rightarrow> nat \<Rightarrow> js_error option \<Rightarrow> 's
     \<Rightarrow> 'a outcome \<times> 's \<times> event list" where
  "executeWithRetry_loop cs operation attempt lastError s =
     (if attempt \<le> maxRetries then
        (if cs = connected then
           (case operation s of
              (Resolved result, s') \<Rightarrow> (Resolved result, s', [Invoke attempt])
            | (Pending, s') \<Rightarrow> (Pending, s', [Invoke attempt])
            | (Rejected err, s') \<Rightarrow>
                (if isNetworkError err then
                   (case executeWithRetry_loop cs operation (attempt + 1) (Some err) s' of
                      (r, s'', evs) \<Rightarrow>
                        (r, s'', Invoke attempt #
                           (if attempt < maxRetries then [Delay (retryDelay * attempt)] else [])
                           @ evs))
                 else (Rejected err, s', [Invoke attempt])))
         else (Pending, s, []))
      else (case lastError of
              Some err \<Rightarrow> (Rejected err, s, [])
            | None \<Rightarrow> (Rejected \<lparr>code = None, message = None\<rparr>, s, [])))"
  by pat_completeness auto
termination
  by (relation "measure (\<lambda>(cs, operation, attempt, lastError, s). Suc maxRetries - attempt)")
    auto

declare executeWithRetry_loop.simps [simp del]

definition executeWithRetry ::
  "ConnectionState \<Rightarrow> ('s \<Rightarrow> 'a outcome \<times> 's) \<Rightarrow> 's \<Rightarrow> 'a outcome \<times> 's" where
  "executeWithRetry cs operation s =
     (case executeWithRetry_loop cs operation 1 None s of (r, s', evs) \<Rightarrow> (r, s'))"

definition executeWithRetry_events ::
  "ConnectionState \<Rightarrow> ('s \<Rightarrow> 'a outcome \<times> 's) \<Rightarrow> 's \<Rightarrow> event list" where
  "executeWithRetry_events cs operation s =
     (case executeWithRetry_loop cs operation 1 None s of (r, s', evs) \<Rightarrow> evs)"

subsection \<open>The document store\<close>

text \<open>
  Documents, with the fields the code writes and reads. A time is a number of
  milliseconds. The two optional fields of a concert document are the ones
  \<^verbatim>\<open>searchConcerts\<close> and \<^verbatim>\<open>getFeedActivities\<close> read from it.
\<close>

record user_doc =
  user_displayName :: "string option"
  loggedConcertsCount :: int

record artist_doc =
  artist_name :: string
  artist_createdAt :: int

record venue_doc =
  venue_name :: string
  venue_city :: string
  venue_state :: string
  venue_country :: string
  venue_createdAt :: int

record concert_doc =
  concert_artistRef :: string
  concert_venueRef :: string
  concert_date :: int
  concert_userRef :: string
  concert_rating :: int
  concert_notes :: string
  concert_createdAt :: int
  concert_updatedAt :: int
  concert_artistName :: "string option"
  concert_venueName :: "string option"

record review_doc =
  review_concertRef :: string
  review_userRef :: string
  review_text :: utf16
  review_rating :: int
  review_createdAt :: int
  review_updatedAt :: int
  likesCount :: int
  commentsCount :: int

record comment_doc =
  comment_userRef :: string
  comment_text :: utf16
  comment_createdAt :: int

text \<open>
  The store: the five top-level collections, each a list of documents with their ids, and
  the sub-collections \<^verbatim>\<open>reviews/{id}/likedBy\<close> (the ids of its documents, which are user
  ids), \<^verbatim>\<open>reviews/{id}/comments\<close> and \<^verbatim>\<open>users/{id}/following\<close>. A query without
  \<^verbatim>\<open>orderBy\<close> returns documents in the order of the list. \<open>idSupply\<close> and \<open>nextId\<close> give
  the ids of new documents, \<open>clock\<close> is the current time, and \<open>faults\<close> says which of the
  coming requests the backend rejects (\<open>Some e\<close>: the next request fails with \<open>e\<close>).
\<close>

record store =
  users :: "(string \<times> user_doc) list"
  artists :: "(string \<times> artist_doc) list"
  venues :: "(string \<times> venue_doc) list"
  concerts :: "(string \<times> concert_doc) list"
  reviews :: "(string \<times> review_doc) list"
  likedBy :: "string \<Rightarrow> string set"
  comments :: "string \<Rightarrow> (string \<times> comment_doc) list"
  following :: "string \<Rightarrow> string list"
  idSupply :: "nat \<Rightarrow> string"
  nextId :: nat
  clock :: int
  faults :: "js_error option list"

definition answer :: "(store \<Rightarrow> js_error + 'a \<times> store) \<Rightarrow> store \<Rightarrow> 'a outcome \<times> store" where
  "answer request s =
     (case request s of
        Inl e \<Rightarrow> (Rejected e, s)
      | Inr (a, s') \<Rightarrow> (Resolved a, s'))"

text \<open>One request to the backend. A request the backend rejects changes no document.\<close>

definition backend :: "(store \<Rightarrow> js_error + 'a \<times> store) \<Rightarrow> store \<Rightarrow> 'a outcome \<times> store" where
  "backend request s =
     (case faults s of
        [] \<Rightarrow> answer request s
      | None # rest \<Rightarrow> answer request (s\<lparr>faults := rest\<rparr>)
      | Some e # rest \<Rightarrow> (Rejected e, s\<lparr>faults := rest\<rparr>))"

definition getDocs :: "(store \<Rightarrow> 'a) \<Rightarrow> store \<Rightarrow> 'a outcome \<times> store" where
  "getDocs q = backend (\<lambda>s. Inr (q s, s))"

definition autoId :: "store \<Rightarrow> string \<times> store" where
  "autoId s = (idSupply s (nextId s), s\<lparr>nextId := Suc (nextId s)\<rparr>)"

definition updateById :: "string \<Rightarrow> ('d \<Rightarrow> 'd) \<Rightarrow> (string \<times> 'd) list \<Rightarrow> (string \<times> 'd) list" where
  "updateById k f docs = map (\<lambda>(k', d). if k' = k then (k', f d) else (k', d)) docs"

definition HttpsError :: "string \<Rightarrow> string \<Rightarrow> js_error" where
  "HttpsError c m = \<lparr>code = Some c, message = Some m\<rparr>"

definition addDoc_artists :: "artist_doc \<Rightarrow> store \<Rightarrow> string outcome \<times> store" where
  "addDoc_artists d =
     backend (\<lambda>s. case autoId s of (k, s') \<Rightarrow> Inr (k, s'\<lparr>artists := artists s' @ [(k, d)]\<rparr>))"

definition addDoc_venues :: "venue_doc \<Rightarrow> store \<Rightarrow> string outcome \<times> store" where
  "addDoc_venues d =
     backend (\<lambda>s. case autoId s of (k, s') \<Rightarrow> Inr (k, s'\<lparr>venues := venues s' @ [(k, d)]\<rparr>))"

definition addDoc_concerts :: "concert_doc \<Rightarrow> store \<Rightarrow> string outcome \<times> store" where
  "addDoc_concerts d =
     backend (\<lambda>s. case autoId s of (k, s') \<Rightarrow> Inr (k, s'\<lparr>concerts := concerts s' @ [(k, d)]\<rparr>))"

definition addDoc_reviews :: "review_doc \<Rightarrow> store \<Rightarrow> string outcome \<times> store" where
  "addDoc_reviews d =
     backend (\<lambda>s. case autoId s of (k, s') \<Rightarrow> Inr (k, s'\<lparr>reviews := reviews s' @ [(k, d)]\<rparr>))"

text \<open>\<^verbatim>\<open>updateDoc(doc(db, 'users', userId), {loggedConcertsCount: increment(1)})\<close>; updating
  a document that does not exist fails.\<close>

definition updateDoc_loggedConcertsCount :: "string \<Rightarrow> store \<Rightarrow> unit outcome \<times> store" where
  "updateDoc_loggedConcertsCount userId =
     backend (\<lambda>s.
       case map_of (users s) userId of
         None \<Rightarrow> Inl (HttpsError ''not-found'' ''No document to update'')
       | Some u \<Rightarrow>
           Inr ((), s\<lparr>users :=
             updateById userId (\<lambda>u. u\<lparr>loggedConcertsCount := loggedConcertsCount u + 1\<rparr>)
               (users s)\<rparr>))"

subsection \<open>Entity resolution and concert logging (concertService.ts)\<close>

definition findOrCreateArtist_operation :: "string \<Rightarrow> store \<Rightarrow> string outcome \<times> store" where
  "findOrCreateArtist_operation artistName s =
     await (getDocs (\<lambda>s. filter (\<lambda>(k, d). artist_name d = artistName) (artists s)) s)
       (\<lambda>querySnapshot s.
          case querySnapshot of
            (k, d) # others \<Rightarrow> (Resolved (''artists/'' @ k), s)
          | [] \<Rightarrow>
              (let artistData = \<lparr>artist_name = artistName, artist_createdAt = clock s\<rparr>
               in await (addDoc_artists artistData s) (\<lambda>k s. (Resolved (''artists/'' @ k), s))))"

definition findOrCreateArtist :: "ConnectionState \<Rightarrow> string \<Rightarrow> store \<Rightarrow> string outcome \<times> store" where
  "findOrCreateArtist cs artistName = executeWithRetry cs (findOrCreateArtist_operation artistName)"

definition findOrCreateVenue_operation :: "string \<Rightarrow> store \<Rightarrow> string outcome \<times> store" where
  "findOrCreateVenue_operation venueName s =
     await (getDocs (\<lambda>s. filter (\<lambda>(k, d). venue_name d = venueName) (venues s)) s)
       (\<lambda>querySnapshot s.
          case querySnapshot of
            (k, d) # others \<Rightarrow> (Resolved (''venues/'' @ k), s)
          | [] \<Rightarrow>
              (let venueData = \<lparr>venue_name = venueName, venue_city = ''Unknown'',
                                venue_state = ''Unknown'', venue_country = ''Unknown'',
                                venue_createdAt = clock s\<rparr>
               in await (addDoc_venues venueData s) (\<lambda>k s. (Resolved (''venues/'' @ k), s))))"

definition findOrCreateVenue :: "ConnectionState \<Rightarrow> string \<Rightarrow> store \<Rightarrow> string outcome \<times> store" where
  "findOrCreateVenue cs venueName = executeWithRetry cs (findOrCreateVenue_operation venueName)"

text \<open>\<^verbatim>\<open>logConcertLogged\<close> sends an analytics event; \<^verbatim>\<open>logAnalyticsEvent\<close> catches whatever
  that throws, and the store is not involved.\<close>

definition logConcertLogged :: "string \<Rightarrow> string \<Rightarrow> string \<Rightarrow> store \<Rightarrow> unit outcome \<times> store" where
  "logConcertLogged concertId artistName venueName s = (Resolved (), s)"

definition logConcert_operation ::
  "ConnectionState \<Rightarrow> string \<Rightarrow> string \<Rightarrow> string \<Rightarrow> int \<Rightarrow> int \<Rightarrow> string option \<Rightarrow> store
     \<Rightarrow> string outcome \<times> store" where
  "logConcert_operation cs userId artistName venueName date rating notes s =
     await (findOrCreateArtist cs artistName s) (\<lambda>artistRef s.
     await (findOrCreateVenue cs venueName s) (\<lambda>venueRef s.
       let concertData =
             \<lparr>concert_artistRef = artistRef, concert_venueRef = venueRef, concert_date = date,
              concert_userRef = ''users/'' @ userId, concert_rating = rating,
              concert_notes = (case notes of Some n \<Rightarrow> n | None \<Rightarrow> []),
              concert_createdAt = clock s, concert_updatedAt = clock s,
              concert_artistName = None, concert_venueName = None\<rparr>
       in
     await (addDoc_concerts concertData s) (\<lambda>concertId s.
     await (updateDoc_loggedConcertsCount userId s) (\<lambda>u s.
     await (logConcertLogged concertId artistName venueName s) (\<lambda>u s.
       (Resolved concertId, s))))))"

definition logConcert ::
  "ConnectionState \<Rightarrow> string \<Rightarrow> string \<Rightarrow> string \<Rightarrow> int \<Rightarrow> int \<Rightarrow> string option \<Rightarrow> store
     \<Rightarrow> string outcome \<times> store" where
  "logConcert cs userId artistName venueName date rating notes =
     executeWithRetry cs (logConcert_operation cs userId artistName venueName date rating notes)"

subsection \<open>Reviews (concertService.ts)\<close>

definition getConcertById :: "string \<Rightarrow> store \<Rightarrow> concert_doc option outcome \<times> store" where
  "getConcertById concertId = getDocs (\<lambda>s. map_of (concerts s) concertId)"

definition submitReview :: "string \<Rightarrow> string \<Rightarrow> int \<Rightarrow> utf16 \<Rightarrow> store \<Rightarrow> string outcome \<times> store" where
  "submitReview concertId userId rating text s =
     await (getConcertById concertId s) (\<lambda>found s.
       case found of
         None \<Rightarrow> (Rejected \<lparr>code = None, message = Some ''Concert not found''\<rparr>, s)
       | Some concert \<Rightarrow>
           (let reviewRating =
                  (if endsWith (concert_userRef concert) userId then concert_rating concert
                   else rating);
                reviewData =
                  \<lparr>review_concertRef = ''concerts/'' @ concertId,
                   review_userRef = ''users/'' @ userId,
                   review_text = trim text, review_rating = reviewRating,
                   review_createdAt = clock s, review_updatedAt = clock s,
                   likesCount = 0, commentsCount = 0\<rparr>
            in addDoc_reviews reviewData s))"

text \<open>The two queries of \<^verbatim>\<open>getConcertReviews\<close>: with \<^verbatim>\<open>orderBy('createdAt', 'desc')\<close>, which
  the backend answers from a composite index, and without.\<close>

definition newestFirst :: "(string \<times> review_doc) list \<Rightarrow> (string \<times> review_doc) list" where
  "newestFirst docs = sort_key (\<lambda>(k, d). - review_createdAt d) docs"

definition reviewsOfConcert :: "string \<Rightarrow> store \<Rightarrow> (string \<times> review_doc) list" where
  "reviewsOfConcert concertId s =
     filter (\<lambda>(k, d). review_concertRef d = ''concerts/'' @ concertId) (reviews s)"

definition reviewsOfConcertOrdered :: "string \<Rightarrow> store \<Rightarrow> (string \<times> review_doc) list" where
  "reviewsOfConcertOrdered concertId s = newestFirst (reviewsOfConcert concertId s)"

definition messageIncludes :: "js_error \<Rightarrow> string \<Rightarrow> bool" where
  "messageIncludes err t = (case message err of Some m \<Rightarrow> includes_str m t | None \<Rightarrow> False)"

definition getConcertReviews_operation ::
  "string \<Rightarrow> store \<Rightarrow> ((string \<times> review_doc) list \<times> bool) outcome \<times> store" where
  "getConcertReviews_operation concertId s =
     (case getDocs (reviewsOfConcertOrdered concertId) s of
        (Resolved querySnapshot, s) \<Rightarrow> (Resolved (querySnapshot, False), s)
      | (Pending, s) \<Rightarrow> (Pending, s)
      | (Rejected err, s) \<Rightarrow>
          if messageIncludes err ''currently building'' then
            await (getDocs (reviewsOfConcert concertId) s)
              (\<lambda>querySnapshot s. (Resolved (newestFirst querySnapshot, True), s))
          else if messageIncludes err ''requires an index'' then
            await (getDocs (reviewsOfConcert concertId) s)
              (\<lambda>querySnapshot s. (Resolved (newestFirst querySnapshot, True), s))
          else (Rejected err, s))"

definition getConcertReviews ::
  "ConnectionState \<Rightarrow> string \<Rightarrow> store \<Rightarrow> ((string \<times> review_doc) list \<times> bool) outcome \<times> store" where
  "getConcertReviews cs concertId = executeWithRetry cs (getConcertReviews_operation concertId)"

subsection \<open>The callable functions (functions/src/index.ts)\<close>

text \<open>
  \<^verbatim>\<open>context.auth\<close> is the caller's user id, or missing; a missing or empty \<^verbatim>\<open>reviewId\<close>,
  \<^verbatim>\<open>userId\<close> or \<^verbatim>\<open>commentText\<close> of \<^verbatim>\<open>data\<close> is the empty string. \<^verbatim>\<open>x || 0\<close> is \<open>x\<close> for a
  number. The \<^verbatim>\<open>catch\<close> of both functions throws the error \<^verbatim>\<open>internal\<close> in place of
  whatever was thrown inside the \<^verbatim>\<open>try\<close>.
\<close>

datatype like_action = liked | unliked

definition catchInternal :: "string \<Rightarrow> 'a outcome \<times> store \<Rightarrow> 'a outcome \<times> store" where
  "catchInternal m r =
     (case r of
        (Rejected e, s) \<Rightarrow> (Rejected (HttpsError ''internal'' m), s)
      | (other, s) \<Rightarrow> (other, s))"

definition likeReview_check :: "string option \<Rightarrow> string \<Rightarrow> string \<Rightarrow> js_error option" where
  "likeReview_check auth reviewId userId =
     (case auth of
        None \<Rightarrow> Some (HttpsError ''unauthenticated'' ''User must be authenticated'')
      | Some uid \<Rightarrow>
          if reviewId = [] \<or> userId = [] then
            Some (HttpsError ''invalid-argument'' ''Review ID and User ID are required'')
          else if userId \<noteq> uid then
            Some (HttpsError ''permission-denied'' ''Cannot like reviews for other users'')
          else None)"

text \<open>The function up to and with \<^verbatim>\<open>await likedByRef.get()\<close>: the checks, then the read
  of the like-membership document, which is not part of any transaction.\<close>

definition likeReview_membership ::
  "string option \<Rightarrow> string \<Rightarrow> string \<Rightarrow> store \<Rightarrow> bool outcome \<times> store" where
  "likeReview_membership auth reviewId userId s =
     (case likeReview_check auth reviewId userId of
        Some e \<Rightarrow> (Rejected e, s)
      | None \<Rightarrow>
          catchInternal ''Failed to process like operation''
            (getDocs (\<lambda>s. userId \<in> likedBy s reviewId) s))"

text \<open>The bodies of the two transactions. A transaction whose body throws writes
  nothing.\<close>

definition unlikeTransaction :: "string \<Rightarrow> string \<Rightarrow> store \<Rightarrow> js_error + unit \<times> store" where
  "unlikeTransaction reviewId userId s =
     (case map_of (reviews s) reviewId of
        None \<Rightarrow> Inl (HttpsError ''not-found'' ''Review not found'')
      | Some reviewDoc \<Rightarrow>
          (let currentLikes = likesCount reviewDoc
           in Inr ((), s\<lparr>reviews :=
                           updateById reviewId (\<lambda>d. d\<lparr>likesCount := max 0 (currentLikes - 1)\<rparr>)
                             (reviews s),
                         likedBy := (likedBy s)(reviewId := likedBy s reviewId - {userId})\<rparr>)))"

definition likeTransaction :: "string \<Rightarrow> string \<Rightarrow> store \<Rightarrow> js_error + unit \<times> store" where
  "likeTransaction reviewId userId s =
     (case map_of (reviews s) reviewId of
        None \<Rightarrow> Inl (HttpsError ''not-found'' ''Review not found'')
      | Some reviewDoc \<Rightarrow>
          (let currentLikes = likesCount reviewDoc
           in Inr ((), s\<lparr>reviews :=
                           updateById reviewId (\<lambda>d. d\<lparr>likesCount := currentLikes + 1\<rparr>)
                             (reviews s),
                         likedBy := (likedBy s)(reviewId := insert userId (likedBy s reviewId))\<rparr>)))"

definition getLikesCount :: "string \<Rightarrow> store \<Rightarrow> int outcome \<times> store" where
  "getLikesCount reviewId =
     getDocs (\<lambda>s. case map_of (reviews s) reviewId of Some d \<Rightarrow> likesCount d | None \<Rightarrow> 0)"

text \<open>The rest of the function, from what the membership read returned: one of the two
  transactions, then the read of the new count.\<close>

definition likeReview_toggle ::
  "string \<Rightarrow> string \<Rightarrow> bool \<Rightarrow> store \<Rightarrow> (like_action \<times> int) outcome \<times> store" where
  "likeReview_toggle reviewId userId likedByExists s =
     catchInternal ''Failed to process like operation''
       (if likedByExists then
          await (backend (unlikeTransaction reviewId userId) s) (\<lambda>u s.
          await (getLikesCount reviewId s) (\<lambda>n s. (Resolved (unliked, n), s)))
        else
          await (backend (likeTransaction reviewId userId) s) (\<lambda>u s.
          await (getLikesCount reviewId s) (\<lambda>n s. (Resolved (liked, n), s))))"

definition likeReview ::
  "string option \<Rightarrow> string \<Rightarrow> string \<Rightarrow> store \<Rightarrow> (like_action \<times> int) outcome \<times> store" where
  "likeReview auth reviewId userId s =
     await (likeReview_membership auth reviewId userId s)
       (\<lambda>likedByExists s. likeReview_toggle reviewId userId likedByExists s)"

text \<open>\<^verbatim>\<open>toggleReviewLike\<close> of the client calls the function as the signed-in user and
  rethrows what it throws.\<close>

definition toggleReviewLike ::
  "string option \<Rightarrow> string \<Rightarrow> string \<Rightarrow> store \<Rightarrow> (like_action \<times> int) outcome \<times> store" where
  "toggleReviewLike auth reviewId userId = likeReview auth reviewId userId"

definition addComment_check :: "string option \<Rightarrow> string \<Rightarrow> string \<Rightarrow> utf16 \<Rightarrow> js_error option" where
  "addComment_check auth reviewId userId commentText =
     (case auth of
        None \<Rightarrow> Some (HttpsError ''unauthenticated'' ''User must be authenticated'')
      | Some uid \<Rightarrow>
          if reviewId = [] \<or> userId = [] \<or> commentText = [] \<or> length (trim commentText) = 0 then
            Some (HttpsError ''invalid-argument''
                    ''Review ID, User ID, and comment text are required'')
          else if userId \<noteq> uid then
            Some (HttpsError ''permission-denied'' ''Cannot comment for other users'')
          else None)"

definition addCommentTransaction ::
  "string \<Rightarrow> string \<Rightarrow> utf16 \<Rightarrow> store \<Rightarrow> js_error + unit \<times> store" where
  "addCommentTransaction reviewId userId commentText s =
     (case map_of (reviews s) reviewId of
        None \<Rightarrow> Inl (HttpsError ''not-found'' ''Review not found'')
      | Some reviewDoc \<Rightarrow>
          (case autoId s of
             (commentId, s) \<Rightarrow>
               (let commentData =
                      \<lparr>comment_userRef = ''users/'' @ userId, comment_text = trim commentText,
                       comment_createdAt = clock s\<rparr>;
                    currentComments = commentsCount reviewDoc
                in Inr ((), s\<lparr>comments :=
                                (comments s)(reviewId := comments s reviewId @ [(commentId, commentData)]),
                              reviews :=
                                updateById reviewId (\<lambda>d. d\<lparr>commentsCount := currentComments + 1\<rparr>)
                                  (reviews s)\<rparr>))))"

definition addComment ::
  "string option \<Rightarrow> string \<Rightarrow> string \<Rightarrow> utf16 \<Rightarrow> store \<Rightarrow> bool outcome \<times> store" where
  "addComment auth reviewId userId commentText s =
     (case addComment_check auth reviewId userId commentText of
        Some e \<Rightarrow> (Rejected e, s)
      | None \<Rightarrow>
          catchInternal ''Failed to add comment''
            (await (backend (addCommentTransaction reviewId userId commentText) s)
               (\<lambda>u s. (Resolved True, s))))"

definition addCommentToReview ::
  "string option \<Rightarrow> string \<Rightarrow> string \<Rightarrow> utf16 \<Rightarrow> store \<Rightarrow> bool outcome \<times> store" where
  "addCommentToReview auth reviewId userId commentText =
     addComment auth reviewId userId commentText"

subsection \<open>The feed (feedService.ts)\<close>

datatype activity_type = concert_logged | review_posted

record FeedItem =
  item_id :: string
  item_type :: activity_type
  item_userId :: string
  item_userDisplayName :: string
  item_concertId :: string
  item_concertName :: string
  item_artistName :: string
  item_venueName :: string
  item_reviewId :: "string option"
  item_timestamp :: int

text \<open>\<^verbatim>\<open>x || d\<close> for a string field that may be missing: \<open>d\<close> when \<open>x\<close> is missing or
  empty. In a template literal a missing field reads \<^verbatim>\<open>undefined\<close>.\<close>

definition orElse :: "string option \<Rightarrow> string \<Rightarrow> string" where
  "orElse x d = (case x of None \<Rightarrow> d | Some v \<Rightarrow> if v = [] then d else v)"

definition interpolated :: "string option \<Rightarrow> string" where
  "interpolated x = (case x of None \<Rightarrow> ''undefined'' | Some v \<Rightarrow> v)"

definition getFollowingUsers :: "ConnectionState \<Rightarrow> string \<Rightarrow> store \<Rightarrow> string list outcome \<times> store" where
  "getFollowingUsers cs userId s =
     catchDefault (executeWithRetry cs (getDocs (\<lambda>s. following s userId)) s) []"

text \<open>The queries of the feed: the documents of a collection whose \<^verbatim>\<open>userRef\<close> is one of
  the given paths, the 20 newest first; and the document at a path.\<close>

definition recentConcerts :: "string list \<Rightarrow> store \<Rightarrow> (string \<times> concert_doc) list" where
  "recentConcerts refs s =
     take 20 (sort_key (\<lambda>(k, d). - concert_createdAt d)
       (filter (\<lambda>(k, d). concert_userRef d \<in> set refs) (concerts s)))"

definition recentReviews :: "string list \<Rightarrow> store \<Rightarrow> (string \<times> review_doc) list" where
  "recentReviews refs s =
     take 20 (sort_key (\<lambda>(k, d). - review_createdAt d)
       (filter (\<lambda>(k, d). review_userRef d \<in> set refs) (reviews s)))"

definition userAt :: "string \<Rightarrow> store \<Rightarrow> (string \<times> user_doc) list" where
  "userAt ref s = filter (\<lambda>(k, d). ''users/'' @ k = ref) (users s)"

definition concertAt :: "string \<Rightarrow> store \<Rightarrow> (string \<times> concert_doc) list" where
  "concertAt ref s = filter (\<lambda>(k, d). ''concerts/'' @ k = ref) (concerts s)"

definition displayNameOf :: "(string \<times> user_doc) list \<Rightarrow> string" where
  "displayNameOf userDoc =
     (case userDoc of
        [] \<Rightarrow> ''Unknown User''
      | (k, d) # others \<Rightarrow> orElse (user_displayName d) ''Unknown User'')"

definition concertActivity :: "string \<Rightarrow> concert_doc \<Rightarrow> string \<Rightarrow> FeedItem" where
  "concertActivity concertId concertData userDisplayName =
     \<lparr>item_id = ''concert_'' @ concertId,
      item_type = concert_logged,
      item_userId = lastSegment (concert_userRef concertData),
      item_userDisplayName = userDisplayName,
      item_concertId = concertId,
      item_concertName =
        interpolated (concert_artistName concertData) @ '' at ''
          @ interpolated (concert_venueName concertData),
      item_artistName = orElse (concert_artistName concertData) ''Unknown Artist'',
      item_venueName = orElse (concert_venueName concertData) ''Unknown Venue'',
      item_reviewId = None,
      item_timestamp = concert_createdAt concertData\<rparr>"

definition reviewActivity ::
  "string \<Rightarrow> review_doc \<Rightarrow> string \<Rightarrow> (string \<times> concert_doc) list \<Rightarrow> FeedItem" where
  "reviewActivity reviewId reviewData userDisplayName concertDoc =
     (let artistName =
            (case concertDoc of
               [] \<Rightarrow> ''Unknown Artist''
             | (k, concertData) # others \<Rightarrow> orElse (concert_artistName concertData) ''Unknown Artist'');
          venueName =
            (case concertDoc of
               [] \<Rightarrow> ''Unknown Venue''
             | (k, concertData) # others \<Rightarrow> orElse (concert_venueName concertData) ''Unknown Venue'')
      in \<lparr>item_id = ''review_'' @ reviewId,
          item_type = review_posted,
          item_userId = lastSegment (review_userRef reviewData),
          item_userDisplayName = userDisplayName,
          item_concertId = lastSegment (review_concertRef reviewData),
          item_concertName = artistName @ '' at '' @ venueName,
          item_artistName = artistName,
          item_venueName = venueName,
          item_reviewId = Some reviewId,
          item_timestamp = review_createdAt reviewData\<rparr>)"

text \<open>The two \<^verbatim>\<open>for\<close> loops over the snapshots; each document costs one or two more
  requests.\<close>

fun concertActivities :: "(string \<times> concert_doc) list \<Rightarrow> store \<Rightarrow> FeedItem list outcome \<times> store" where
  "concertActivities [] s = (Resolved [], s)"
| "concertActivities ((concertId, concertData) # docs) s =
     (case getDocs (userAt (concert_userRef concertData)) s of
        (Rejected e, s) \<Rightarrow> (Rejected e, s)
      | (Pending, s) \<Rightarrow> (Pending, s)
      | (Resolved userDoc, s) \<Rightarrow>
          (case concertActivities docs s of
             (Rejected e, s) \<Rightarrow> (Rejected e, s)
           | (Pending, s) \<Rightarrow> (Pending, s)
           | (Resolved activities, s) \<Rightarrow>
               (Resolved (concertActivity concertId concertData (displayNameOf userDoc)
                            # activities), s)))"

fun reviewActivities :: "(string \<times> review_doc) list \<Rightarrow> store \<Rightarrow> FeedItem list outcome \<times> store" where
  "reviewActivities [] s = (Resolved [], s)"
| "reviewActivities ((reviewId, reviewData) # docs) s =
     (case getDocs (userAt (review_userRef reviewData)) s of
        (Rejected e, s) \<Rightarrow> (Rejected e, s)
      | (Pending, s) \<Rightarrow> (Pending, s)
      | (Resolved userDoc, s) \<Rightarrow>
          (case getDocs (concertAt (review_concertRef reviewData)) s of
             (Rejected e, s) \<Rightarrow> (Rejected e, s)
           | (Pending, s) \<Rightarrow> (Pending, s)
           | (Resolved concertDoc, s) \<Rightarrow>
               (case reviewActivities docs s of
                  (Rejected e, s) \<Rightarrow> (Rejected e, s)
                | (Pending, s) \<Rightarrow> (Pending, s)
                | (Resolved activities, s) \<Rightarrow>
                    (Resolved (reviewActivity reviewId reviewData (displayNameOf userDoc) concertDoc
                                 # activities), s))))"

definition mostRecentFirst :: "FeedItem list \<Rightarrow> FeedItem list" where
  "mostRecentFirst activities = sort_key (\<lambda>a. - item_timestamp a) activities"

definition getFeedActivities_operation ::
  "ConnectionState \<Rightarrow> string \<Rightarrow> store \<Rightarrow> FeedItem list outcome \<times> store" where
  "getFeedActivities_operation cs userId s =
     await (getFollowingUsers cs userId s) (\<lambda>followingUserIds s.
       if length followingUserIds = 0 then (Resolved [], s)
       else
         (let refs = map (\<lambda>k. ''users/'' @ k) followingUserIds in
          await (getDocs (recentConcerts refs) s) (\<lambda>concertsSnapshot s.
          await (concertActivities concertsSnapshot s) (\<lambda>fromConcerts s.
          await (getDocs (recentReviews refs) s) (\<lambda>reviewsSnapshot s.
          await (reviewActivities reviewsSnapshot s) (\<lambda>fromReviews s.
            (Resolved (take 30 (mostRecentFirst (fromConcerts @ fromReviews))), s)))))))"

definition getFeedActivities :: "ConnectionState \<Rightarrow> string \<Rightarrow> store \<Rightarrow> FeedItem list outcome \<times> store" where
  "getFeedActivities cs userId s =
     catchDefault (executeWithRetry cs (getFeedActivities_operation cs userId) s) []"

subsection \<open>Search (searchService.ts)\<close>

text \<open>A prefix-range query on a string field of the concerts: the documents that have the
  field, with a value from \<open>searchTerm\<close> to \<open>searchTerm\<close> followed by U+F8FF (in UTF-8),
  in the order of the field, at most 10.\<close>

definition inPrefixRange :: "string \<Rightarrow> string \<Rightarrow> bool" where
  "inPrefixRange searchTerm v =
     (searchTerm \<le> v \<and> v \<le> searchTerm @ [CHR 0xEF, CHR 0xA3, CHR 0xBF])"

definition concertsInRange ::
  "(concert_doc \<Rightarrow> string option) \<Rightarrow> string \<Rightarrow> store \<Rightarrow> (string \<times> concert_doc) list" where
  "concertsInRange field searchTerm s =
     take 10 (map snd (sort_key fst
       (List.map_filter
          (\<lambda>(k, d). case field d of
                       None \<Rightarrow> None
                     | Some v \<Rightarrow> if inPrefixRange searchTerm v then Some (v, (k, d)) else None)
          (concerts s))))"

definition pushUnlessFound ::
  "(string \<times> concert_doc) list \<Rightarrow> (string \<times> concert_doc) \<Rightarrow> (string \<times> concert_doc) list" where
  "pushUnlessFound found concert =
     (if list_ex (\<lambda>c. fst c = fst concert) found then found else found @ [concert])"

definition searchConcerts :: "string \<Rightarrow> store \<Rightarrow> (string \<times> concert_doc) list outcome \<times> store" where
  "searchConcerts searchTerm s =
     catchDefault
       (await (getDocs (concertsInRange concert_artistName searchTerm) s) (\<lambda>querySnapshot s.
        await (getDocs (concertsInRange concert_venueName searchTerm) s) (\<lambda>venueSnapshot s.
          (Resolved (take 10 (foldl pushUnlessFound querySnapshot venueSnapshot)), s))))
       []"

subsection \<open>Auxiliary definitions and example stores\<close>

text \<open>The store once the backend has taken one request: the next entry of \<open>faults\<close> is
  used up.\<close>

definition afterRequest :: "store \<Rightarrow> store" where
  "afterRequest s = s\<lparr>faults := tl (faults s)\<rparr>"

definition exampleIds :: "nat \<Rightarrow> string" where
  "exampleIds n = ''id'' @ replicate n (CHR ''x'')"

text \<open>A store with the users \<open>ab\<close> and \<open>b\<close>, one concert logged by \<open>ab\<close> with rating 5, and
  one review of it that nobody likes yet.\<close>

definition example_store :: store where
  "example_store =
     \<lparr>users = [(''ab'', \<lparr>user_displayName = Some ''ann'', loggedConcertsCount = 1\<rparr>),
               (''b'', \<lparr>user_displayName = Some ''bob'', loggedConcertsCount = 0\<rparr>)],
      artists = [(''a1'', \<lparr>artist_name = ''The Band'', artist_createdAt = 10\<rparr>)],
      venues = [(''v1'', \<lparr>venue_name = ''The Venue'', venue_city = ''Unknown'',
                          venue_state = ''Unknown'', venue_country = ''Unknown'',
                          venue_createdAt = 10\<rparr>)],
      concerts = [(''c1'', \<lparr>concert_artistRef = ''artists/a1'', concert_venueRef = ''venues/v1'',
                            concert_date = 5, concert_userRef = ''users/ab'', concert_rating = 5,
                            concert_notes = ''great show'', concert_createdAt = 10,
                            concert_updatedAt = 10, concert_artistName = None,
                            concert_venueName = None\<rparr>)],
      reviews = [(''r1'', \<lparr>review_concertRef = ''concerts/c1'', review_userRef = ''users/ab'',
                           review_text = codeUnits ''loved it'', review_rating = 5, review_createdAt = 20,
                           review_updatedAt = 20, likesCount = 0, commentsCount = 0\<rparr>)],
      likedBy = (\<lambda>r. {}),
      comments = (\<lambda>r. []),
      following = (\<lambda>u. []),
      idSupply = exampleIds,
      nextId = 0,
      clock = 100,
      faults = []\<rparr>"

text \<open>The same store with a like of \<open>b\<close> on the review that its counter does not count.\<close>

definition unsynced_store :: store where
  "unsynced_store = example_store\<lparr>likedBy := (\<lambda>r. if r = ''r1'' then {''b''} else {})\<rparr>"

text \<open>A store with one user and nothing else.\<close>

definition fresh_store :: store where
  "fresh_store =
     \<lparr>users = [(''u1'', \<lparr>user_displayName = Some ''u1'', loggedConcertsCount = 0\<rparr>)],
      artists = [], venues = [], concerts = [], reviews = [],
      likedBy = (\<lambda>r. {}), comments = (\<lambda>r. []), following = (\<lambda>u. []),
      idSupply = exampleIds, nextId = 0, clock = 100, faults = []\<rparr>"

text \<open>Two stores with the same documents: they differ at most in \<open>faults\<close>.\<close>

definition sameDocuments :: "store \<Rightarrow> store \<Rightarrow> bool" where
  "sameDocuments s s' = (\<exists>fs. s' = s\<lparr>faults := fs\<rparr>)"

text \<open>Concert documents with neither an \<^verbatim>\<open>artistName\<close> nor a \<^verbatim>\<open>venueName\<close> field, and stores
  of which the second has the concerts of the first followed by such documents.\<close>

definition unnamed :: "(string \<times> concert_doc) list \<Rightarrow> bool" where
  "unnamed docs =
     list_all (\<lambda>(k, d). concert_artistName d = None \<and> concert_venueName d = None) docs"

definition addsUnnamedConcerts :: "store \<Rightarrow> store \<Rightarrow> bool" where
  "addsUnnamedConcerts s s' = (\<exists>new. concerts s' = concerts s @ new \<and> unnamed new)"

text \<open>The example store in which \<open>b\<close> follows \<open>ab\<close>, and with one more concert, which does have
  the two name fields.\<close>

definition following_store :: store where
  "following_store = example_store\<lparr>following := (\<lambda>u. if u = ''b'' then [''ab''] else [])\<rparr>"

definition named_store :: store where
  "named_store = example_store\<lparr>concerts :=
     concerts example_store @
       [(''c2'', \<lparr>concert_artistRef = ''artists/a1'', concert_venueRef = ''venues/v1'',
                  concert_date = 6, concert_userRef = ''users/b'', concert_rating = 4,
                  concert_notes = [], concert_createdAt = 30, concert_updatedAt = 30,
                  concert_artistName = Some ''The Band'',
                  concert_venueName = Some ''The Venue''\<rparr>)]\<rparr>"

text \<open>Errors of the backend, and the example store with requests that fail.\<close>

definition unavailable :: js_error where
  "unavailable = HttpsError ''unavailable'' ''The service is unavailable''"

definition index_building :: js_error where
  "index_building = HttpsError ''failed-precondition'' ''The index is currently building''"

definition permission_denied :: js_error where
  "permission_denied = HttpsError ''permission-denied'' ''Missing or insufficient permissions''"

definition flaky_store :: store where
  "flaky_store = example_store\<lparr>faults := [Some unavailable]\<rparr>"

definition building_store :: store where
  "building_store = example_store\<lparr>faults := [Some index_building]\<rparr>"

definition denied_store :: store where
  "denied_store = example_store\<lparr>faults := [Some permission_denied]\<rparr>"

definition down_store :: store where
  "down_store = example_store\<lparr>faults := [Some unavailable, Some unavailable, Some unavailable]\<rparr>"

definition denied_feed_store :: store where
  "denied_feed_store = following_store\<lparr>faults := [None, Some permission_denied]\<rparr>"

text \<open>
  The errors among answers of the backend, and the errors that the backend answered
  requests with between a state \<open>s\<close> of a call and a later state \<open>s'\<close>: those of the entries
  of \<open>faults\<close> used up in between.
\<close>

fun errorsOf :: "js_error option list \<Rightarrow> js_error list" where
  "errorsOf [] = []"
| "errorsOf (None # answers) = errorsOf answers"
| "errorsOf (Some e # answers) = e # errorsOf answers"

definition failedRequests :: "store \<Rightarrow> store \<Rightarrow> js_error list" where
  "failedRequests s s' = errorsOf (take (length (faults s) - length (faults s')) (faults s))"

text \<open>Code that stops at the first request that fails: from \<open>s\<close> to \<open>s'\<close> every request was
  answered when the outcome is a value, and every request but the last, which failed with
  \<open>e\<close>, when the outcome is the rejection with \<open>e\<close>.\<close>

definition runsUntilFailure :: "store \<Rightarrow> 'a outcome \<Rightarrow> store \<Rightarrow> bool" where
  "runsUntilFailure s r s' =
     (\<exists>answers. faults s = answers @ faults s' \<and>
        (case r of
           Resolved x \<Rightarrow> errorsOf answers = []
         | Rejected e \<Rightarrow> errorsOf answers = [e]
         | Pending \<Rightarrow> False))"

text \<open>The store in which \<open>b\<close> follows \<open>ab\<close>, with the second request failing once, and
  with the second request of each of three attempts failing, with \<^verbatim>\<open>unavailable\<close>.\<close>

definition flaky_feed_store :: store where
  "flaky_feed_store = following_store\<lparr>faults := [None, Some unavailable]\<rparr>"

definition down_feed_store :: store where
  "down_feed_store = following_store\<lparr>faults :=
     [None, Some unavailable, None, Some unavailable, None, Some unavailable]\<rparr>"

section \<open>The retry policy\<close>

lemma loop_past_last_attempt:
  "maxRetries < attempt \<Longrightarrow>
     executeWithRetry_loop cs operation attempt (Some err) s = (Rejected err, s, [])"
  by (subst executeWithRetry_loop.simps) simp

lemma loop_resolves:
  "attempt \<le> maxRetries \<Longrightarrow> operation s = (Resolved result, s') \<Longrightarrow>
     executeWithRetry_loop connected operation attempt lastError s
       = (Resolved result, s', [Invoke attempt])"
  by (subst executeWithRetry_loop.simps) simp

lemma loop_rejects_at_once:
  "attempt \<le> maxRetries \<Longrightarrow> operation s = (Rejected err, s') \<Longrightarrow> \<not> isNetworkError err \<Longrightarrow>
     executeWithRetry_loop connected operation attempt lastError s
       = (Rejected err, s', [Invoke attempt])"
  by (subst executeWithRetry_loop.simps) simp

lemma loop_retries:
  "attempt \<le> maxRetries \<Longrightarrow> operation s = (Rejected err, s') \<Longrightarrow> isNetworkError err \<Longrightarrow>
   subsequent = attempt + 1 \<Longrightarrow>
   executeWithRetry_loop connected operation subsequent (Some err) s' = (r, s'', evs) \<Longrightarrow>
     executeWithRetry_loop connected operation attempt lastError s
       = (r, s'', Invoke attempt #
            (if attempt < maxRetries then [Delay (retryDelay * attempt)] else []) @ evs)"
  by (subst executeWithRetry_loop.simps) simp

lemma loop_queues:
  "attempt \<le> maxRetries \<Longrightarrow> cs \<noteq> connected \<Longrightarrow>
     executeWithRetry_loop cs operation attempt lastError s = (Pending, s, [])"
  by (subst executeWithRetry_loop.simps) simp

lemma loop_three_failures:
  assumes "operation s0 = (Rejected e1, s1)" "isNetworkError e1"
    and "operation s1 = (Rejected e2, s2)" "isNetworkError e2"
    and "operation s2 = (Rejected e3, s3)" "isNetworkError e3"
  shows "executeWithRetry_loop connected operation 1 None s0
           = (Rejected e3, s3, [Invoke 1, Delay 1000, Invoke 2, Delay 2000, Invoke 3])"
proof -
  have four: "executeWithRetry_loop connected operation 4 (Some e3) s3 = (Rejected e3, s3, [])"
    by (rule loop_past_last_attempt) (simp add: maxRetries_def)
  have three: "executeWithRetry_loop connected operation 3 (Some e2) s2
                 = (Rejected e3, s3, [Invoke 3])"
    using loop_retries [where lastError = "Some e2", OF _ assms(5,6) _ four]
    by (simp add: maxRetries_def)
  have two: "executeWithRetry_loop connected operation 2 (Some e1) s1
               = (Rejected e3, s3, [Invoke 2, Delay 2000, Invoke 3])"
    using loop_retries [where lastError = "Some e1", OF _ assms(3,4) _ three]
    by (simp add: maxRetries_def retryDelay_def)
  show ?thesis
    using loop_retries [where lastError = None, OF _ assms(1,2) _ two]
    by (simp add: maxRetries_def retryDelay_def)
qed

text \<open>
  C4. In the connected state, an operation that throws a transient-classified error at
  every invocation is invoked exactly three times, with waits of \<open>retryDelay * 1\<close> and
  \<open>retryDelay * 2\<close> milliseconds between the attempts, and the error of the third
  invocation is the one propagated; an operation that throws an error that is not
  transient-classified is invoked once and that error is propagated with no wait.
\<close>

theorem executeWithRetry_retry_bound:
  fixes operation :: "'s \<Rightarrow> 'a outcome \<times> 's"
  shows "((\<forall>s. \<exists>err s'. operation s = (Rejected err, s') \<and> isNetworkError err) \<longrightarrow>
            (\<exists>e1 s1 e2 s2 e3 s3.
               operation s0 = (Rejected e1, s1) \<and> operation s1 = (Rejected e2, s2) \<and>
               operation s2 = (Rejected e3, s3) \<and>
               executeWithRetry connected operation s0 = (Rejected e3, s3) \<and>
               executeWithRetry_events connected operation s0
                 = [Invoke 1, Delay (retryDelay * 1), Invoke 2, Delay (retryDelay * 2), Invoke 3]))
       \<and> (\<forall>err s1. operation s0 = (Rejected err, s1) \<and> \<not> isNetworkError err \<longrightarrow>
            executeWithRetry connected operation s0 = (Rejected err, s1) \<and>
            executeWithRetry_events connected operation s0 = [Invoke 1])"
proof (intro conjI impI allI)
  assume always: "\<forall>s. \<exists>err s'. operation s = (Rejected err, s') \<and> isNetworkError err"
  from always obtain e1 s1 where 1: "operation s0 = (Rejected e1, s1)" "isNetworkError e1"
    by blast
  from always obtain e2 s2 where 2: "operation s1 = (Rejected e2, s2)" "isNetworkError e2"
    by blast
  from always obtain e3 s3 where 3: "operation s2 = (Rejected e3, s3)" "isNetworkError e3"
    by blast
  have "executeWithRetry_loop connected operation 1 None s0
          = (Rejected e3, s3, [Invoke 1, Delay 1000, Invoke 2, Delay 2000, Invoke 3])"
    using 1 2 3 by (rule loop_three_failures)
  then have "executeWithRetry connected operation s0 = (Rejected e3, s3)"
    and "executeWithRetry_events connected operation s0
           = [Invoke 1, Delay (retryDelay * 1), Invoke 2, Delay (retryDelay * 2), Invoke 3]"
    by (simp_all add: executeWithRetry_def executeWithRetry_events_def retryDelay_def)
  with 1 2 3 show "\<exists>e1 s1 e2 s2 e3 s3.
      operation s0 = (Rejected e1, s1) \<and> operation s1 = (Rejected e2, s2) \<and>
      operation s2 = (Rejected e3, s3) \<and>
      executeWithRetry connected operation s0 = (Rejected e3, s3) \<and>
      executeWithRetry_events connected operation s0
        = [Invoke 1, Delay (retryDelay * 1), Invoke 2, Delay (retryDelay * 2), Invoke 3]"
    by blast
next
  fix err s1
  assume "operation s0 = (Rejected err, s1) \<and> \<not> isNetworkError err"
  then have "executeWithRetry_loop connected operation 1 None s0
               = (Rejected err, s1, [Invoke 1])"
    using loop_rejects_at_once [of 1 operation s0 err s1 None] by (simp add: maxRetries_def)
  then show "executeWithRetry connected operation s0 = (Rejected err, s1)"
    and "executeWithRetry_events connected operation s0 = [Invoke 1]"
    by (simp_all add: executeWithRetry_def executeWithRetry_events_def)
qed

lemma unavailable_is_network_error:
  "isNetworkError \<lparr>code = Some ''unavailable'', message = None\<rparr>"
  by (simp add: isNetworkError_def toLowerCase_def toLowerChar_def includes_str_def
      networkErrorCodes_def sublist_code)

lemma not_found_is_no_network_error:
  "\<not> isNetworkError \<lparr>code = Some ''not-found'', message = Some ''Review not found''\<rparr>"
  by (simp add: isNetworkError_def toLowerCase_def toLowerChar_def includes_str_def
      networkErrorCodes_def sublist_code)

text \<open>An operation that counts its invocations in its state and always throws
  \<^verbatim>\<open>unavailable\<close> ends with the count 3; one that throws \<^verbatim>\<open>not-found\<close> with the count 1.\<close>

theorem executeWithRetry_retry_bound_witness:
  "executeWithRetry connected
     (\<lambda>n::nat. (Rejected \<lparr>code = Some ''unavailable'', message = None\<rparr> :: unit outcome, Suc n)) 0
     = (Rejected \<lparr>code = Some ''unavailable'', message = None\<rparr>, 3)
   \<and> executeWithRetry_events connected
     (\<lambda>n::nat. (Rejected \<lparr>code = Some ''unavailable'', message = None\<rparr> :: unit outcome, Suc n)) 0
     = [Invoke 1, Delay 1000, Invoke 2, Delay 2000, Invoke 3]
   \<and> executeWithRetry connected
     (\<lambda>n::nat. (Rejected \<lparr>code = Some ''not-found'', message = Some ''Review not found''\<rparr>
                   :: unit outcome, Suc n)) 0
     = (Rejected \<lparr>code = Some ''not-found'', message = Some ''Review not found''\<rparr>, 1)
   \<and> executeWithRetry_events connected
     (\<lambda>n::nat. (Rejected \<lparr>code = Some ''not-found'', message = Some ''Review not found''\<rparr>
                   :: unit outcome, Suc n)) 0
     = [Invoke 1]"
proof -
  let ?down = "\<lambda>n::nat. (Rejected \<lparr>code = Some ''unavailable'', message = None\<rparr> :: unit outcome, Suc n)"
  let ?missing = "\<lambda>n::nat. (Rejected \<lparr>code = Some ''not-found'', message = Some ''Review not found''\<rparr>
                    :: unit outcome, Suc n)"
  have always: "\<forall>s. \<exists>err s'. ?down s = (Rejected err, s') \<and> isNetworkError err"
    using unavailable_is_network_error by simp
  from executeWithRetry_retry_bound [of ?down 0] always
  have "executeWithRetry connected ?down 0
          = (Rejected \<lparr>code = Some ''unavailable'', message = None\<rparr>, 3)
        \<and> executeWithRetry_events connected ?down 0
          = [Invoke 1, Delay 1000, Invoke 2, Delay 2000, Invoke 3]"
    by (auto simp: retryDelay_def numeral_3_eq_3)
  moreover
  from executeWithRetry_retry_bound [of ?missing 0] not_found_is_no_network_error
  have "executeWithRetry connected ?missing 0
          = (Rejected \<lparr>code = Some ''not-found'', message = Some ''Review not found''\<rparr>, 1)
        \<and> executeWithRetry_events connected ?missing 0 = [Invoke 1]"
    by simp
  ultimately show ?thesis by simp
qed

section \<open>Requests that the backend answers\<close>

lemma await_simps [simp]:
  "await (Resolved a, s) k = k a s"
  "await (Rejected e, s) k = (Rejected e, s)"
  "await (Pending, s) k = (Pending, s)"
  by (simp_all add: await_def)

lemma backend_no_faults:
  "faults s = [] \<Longrightarrow> backend request s = answer request s"
  by (simp add: backend_def)

lemma getDocs_no_faults:
  "faults s = [] \<Longrightarrow> getDocs q s = (Resolved (q s), s)"
  by (simp add: getDocs_def backend_no_faults answer_def)

lemma afterRequest_fields [simp]:
  "users (afterRequest s) = users s" "artists (afterRequest s) = artists s"
  "venues (afterRequest s) = venues s" "concerts (afterRequest s) = concerts s"
  "reviews (afterRequest s) = reviews s" "likedBy (afterRequest s) = likedBy s"
  "comments (afterRequest s) = comments s" "following (afterRequest s) = following s"
  "idSupply (afterRequest s) = idSupply s" "nextId (afterRequest s) = nextId s"
  "clock (afterRequest s) = clock s" "faults (afterRequest s) = tl (faults s)"
  by (simp_all add: afterRequest_def)

lemma afterRequest_no_faults:
  "faults s = [] \<Longrightarrow> afterRequest s = s"
  by (cases s) (simp add: afterRequest_def)

lemma backend_afterRequest:
  "backend request s =
     (case faults s of
        Some e # rest \<Rightarrow> (Rejected e, afterRequest s)
      | _ \<Rightarrow> answer request (afterRequest s))"
proof (cases "faults s")
  case Nil
  then show ?thesis by (simp add: backend_def afterRequest_no_faults)
next
  case (Cons f rest)
  then show ?thesis by (cases f) (simp_all add: backend_def afterRequest_def)
qed

lemma backend_Resolved:
  "backend request s = (Resolved a, s') \<longleftrightarrow>
     (\<forall>e rest. faults s \<noteq> Some e # rest) \<and> request (afterRequest s) = Inr (a, s')"
  by (auto simp: backend_afterRequest answer_def split: list.splits option.splits sum.splits)

lemma getDocs_Resolved:
  "getDocs q s = (Resolved a, s') \<longleftrightarrow>
     (\<forall>e rest. faults s \<noteq> Some e # rest) \<and> a = q (afterRequest s) \<and> s' = afterRequest s"
  by (auto simp: getDocs_def backend_Resolved)

lemma await_Resolved:
  "await m k = (Resolved b, s') \<longleftrightarrow> (\<exists>a s1. m = (Resolved a, s1) \<and> k a s1 = (Resolved b, s'))"
  by (cases m; cases "fst m") (auto simp: await_def)

lemma catchInternal_Resolved:
  "catchInternal msg r = (Resolved a, s') \<longleftrightarrow> r = (Resolved a, s')"
  by (cases r; cases "fst r") (auto simp: catchInternal_def)

lemma executeWithRetry_resolves:
  "operation s = (Resolved result, s') \<Longrightarrow>
     executeWithRetry connected operation s = (Resolved result, s')"
  using loop_resolves [of 1 operation s result s' None]
  by (simp add: executeWithRetry_def maxRetries_def)

lemma executeWithRetry_rejects_at_once:
  "operation s = (Rejected err, s') \<Longrightarrow> \<not> isNetworkError err \<Longrightarrow>
     executeWithRetry connected operation s = (Rejected err, s')"
  using loop_rejects_at_once [of 1 operation s err s' None]
  by (simp add: executeWithRetry_def maxRetries_def)

lemma map_of_updateById:
  "map_of (updateById k f docs) k' = (if k' = k then map_option f (map_of docs k) else map_of docs k')"
  by (induction docs) (auto simp: updateById_def)

section \<open>What every attempt preserves\<close>

lemma sameDocuments_refl [simp]: "sameDocuments s s"
  unfolding sameDocuments_def by (rule exI [of _ "faults s"]) simp

lemma sameDocuments_trans: "sameDocuments s s' \<Longrightarrow> sameDocuments s' s'' \<Longrightarrow> sameDocuments s s''"
  by (auto simp: sameDocuments_def)

lemma sameDocuments_afterRequest [simp]: "sameDocuments s (afterRequest s)"
  by (auto simp: sameDocuments_def afterRequest_def)

lemma sameDocuments_fields:
  assumes "sameDocuments s s'"
  shows "users s' = users s" "concerts s' = concerts s" "reviews s' = reviews s"
    "following s' = following s" "artists s' = artists s" "venues s' = venues s"
    "likedBy s' = likedBy s" "comments s' = comments s"
  using assms by (auto simp: sameDocuments_def)

lemma getDocs_store:
  "getDocs q s = (r, s') \<Longrightarrow> s' = afterRequest s"
  by (auto simp: getDocs_def backend_afterRequest answer_def split: list.splits option.splits)

lemma getDocs_not_Pending:
  "fst (getDocs q s) \<noteq> Pending"
  by (auto simp: getDocs_def backend_afterRequest answer_def split: list.splits option.splits)

lemma getDocs_rejected:
  "faults s = Some e # rest \<Longrightarrow> getDocs q s = (Rejected e, s\<lparr>faults := rest\<rparr>)"
  by (simp add: getDocs_def backend_def)

lemma getDocs_answered:
  "\<forall>e rest. faults s \<noteq> Some e # rest \<Longrightarrow> getDocs q s = (Resolved (q (afterRequest s)), afterRequest s)"
  by (cases "getDocs q s"; cases "fst (getDocs q s)")
    (auto simp: getDocs_def backend_afterRequest answer_def split: list.splits option.splits)

lemma backend_store:
  "backend request s = (r, s') \<Longrightarrow>
     s' = afterRequest s \<or> (\<exists>x. request (afterRequest s) = Inr (x, s'))"
  by (auto simp: backend_afterRequest answer_def split: list.splits option.splits sum.splits)

lemma loop_invariant:
  "(\<And>s r s'. I s \<Longrightarrow> operation s = (r, s') \<Longrightarrow> I s') \<Longrightarrow> I s \<Longrightarrow>
   executeWithRetry_loop cs operation attempt lastError s = (r, s', evs) \<Longrightarrow>
     I s' \<and> (\<forall>x. r = Resolved x \<longrightarrow> (\<exists>s1. I s1 \<and> operation s1 = (Resolved x, s')))"
proof (induction cs operation attempt lastError s arbitrary: r s' evs
    rule: executeWithRetry_loop.induct)
  case (1 cs operation attempt lastError s)
  note step = "1.prems"(1) and I0 = "1.prems"(2) and run = "1.prems"(3)
  show ?case
  proof (cases "attempt \<le> maxRetries \<and> cs = connected")
    case False
    with run I0 show ?thesis
      by (subst (asm) executeWithRetry_loop.simps) (auto split: option.splits if_splits)
  next
    case True
    obtain r1 s1 where op: "operation s = (r1, s1)"
      by (cases "operation s")
    from step [OF I0 op] have I1: "I s1" .
    show ?thesis
    proof (cases r1)
      case (Resolved x)
      with True op run I1 I0 show ?thesis
        by (subst (asm) executeWithRetry_loop.simps) auto
    next
      case Pending
      with True op run I1 show ?thesis
        by (subst (asm) executeWithRetry_loop.simps) auto
    next
      case (Rejected err)
      show ?thesis
      proof (cases "isNetworkError err")
        case False
        with Rejected True op run I1 show ?thesis
          by (subst (asm) executeWithRetry_loop.simps) auto
      next
        case net: True
        obtain r2 s2 evs2 where
          rec: "executeWithRetry_loop cs operation (attempt + 1) (Some err) s1 = (r2, s2, evs2)"
          by (cases "executeWithRetry_loop cs operation (attempt + 1) (Some err) s1") auto
        from run True op Rejected net rec have "r = r2" "s' = s2"
          by (subst (asm) executeWithRetry_loop.simps; simp)+
        moreover from True have le: "attempt \<le> maxRetries" and c: "cs = connected"
          by simp_all
        from op Rejected have op': "(Rejected err, s1) = operation s"
          by simp
        have "I s2 \<and> (\<forall>x. r2 = Resolved x \<longrightarrow> (\<exists>s1. I s1 \<and> operation s1 = (Resolved x, s2)))"
          by (rule "1.IH" [OF le c op' refl net step I1 rec])
        ultimately show ?thesis by simp
      qed
    qed
  qed
qed

lemma loop_not_Pending:
  "(\<And>s. fst (operation s) \<noteq> Pending) \<Longrightarrow> cs = connected \<Longrightarrow>
     fst (executeWithRetry_loop cs operation attempt lastError s) \<noteq> Pending"
proof (induction cs operation attempt lastError s rule: executeWithRetry_loop.induct)
  case (1 cs operation attempt lastError s)
  note np = "1.prems"(1) and cs = "1.prems"(2)
  obtain r1 s1 where op: "operation s = (r1, s1)"
    by (cases "operation s")
  with np [of s] have r1: "r1 \<noteq> Pending" by simp
  show ?case
  proof (cases r1)
    case Pending
    with r1 show ?thesis by simp
  next
    case (Resolved x)
    with op cs show ?thesis
      by (subst executeWithRetry_loop.simps) (auto split: option.splits)
  next
    case (Rejected err)
    show ?thesis
    proof (cases "attempt \<le> maxRetries \<and> isNetworkError err")
      case False
      with op cs Rejected show ?thesis
        by (subst executeWithRetry_loop.simps) (auto split: option.splits)
    next
      case True
      then have le: "attempt \<le> maxRetries" and net: "isNetworkError err"
        by simp_all
      from op Rejected have op': "(Rejected err, s1) = operation s"
        by simp
      have "fst (executeWithRetry_loop cs operation (attempt + 1) (Some err) s1) \<noteq> Pending"
        by (rule "1.IH" [OF le cs op' refl net np cs])
      with True op cs Rejected show ?thesis
        by (subst executeWithRetry_loop.simps) (auto split: prod.splits)
    qed
  qed
qed

lemma executeWithRetry_invariant:
  assumes "\<And>s r s'. I s \<Longrightarrow> operation s = (r, s') \<Longrightarrow> I s'" and "I s"
    and "executeWithRetry cs operation s = (r, s')"
  shows "I s' \<and> (\<forall>x. r = Resolved x \<longrightarrow> (\<exists>s1. I s1 \<and> operation s1 = (Resolved x, s')))"
proof -
  obtain evs where "executeWithRetry_loop cs operation 1 None s = (r, s', evs)"
    using assms(3) by (auto simp: executeWithRetry_def split: prod.splits)
  with assms(1,2) show ?thesis
    by (rule loop_invariant)
qed

lemma executeWithRetry_not_Pending:
  assumes "\<And>s. fst (operation s) \<noteq> Pending"
  shows "fst (executeWithRetry connected operation s) \<noteq> Pending"
  using loop_not_Pending [of operation connected 1 None s] assms
  by (auto simp: executeWithRetry_def split: prod.splits)

lemma executeWithRetry_three_failures:
  assumes "operation s0 = (Rejected e1, s1)" "isNetworkError e1"
    and "operation s1 = (Rejected e2, s2)" "isNetworkError e2"
    and "operation s2 = (Rejected e3, s3)" "isNetworkError e3"
  shows "executeWithRetry connected operation s0 = (Rejected e3, s3)"
  using loop_three_failures [OF assms] by (simp add: executeWithRetry_def)

lemma executeWithRetry_second_attempt:
  assumes "operation s0 = (Rejected e1, s1)" "isNetworkError e1"
    and "operation s1 = (Resolved x, s2)"
  shows "executeWithRetry connected operation s0 = (Resolved x, s2)"
proof -
  have two: "executeWithRetry_loop connected operation 2 (Some e1) s1
               = (Resolved x, s2, [Invoke 2])"
    by (rule loop_resolves) (simp_all add: maxRetries_def assms)
  show ?thesis
    using loop_retries [where lastError = None, OF _ assms(1,2) _ two]
    by (simp add: executeWithRetry_def maxRetries_def)
qed

lemma executeWithRetry_third_attempt:
  assumes "operation s0 = (Rejected e1, s1)" "isNetworkError e1"
    and "operation s1 = (Rejected e2, s2)" "isNetworkError e2"
    and "operation s2 = (Rejected e3, s3)"
  shows "executeWithRetry connected operation s0 = (Rejected e3, s3)"
proof (cases "isNetworkError e3")
  case True
  with assms show ?thesis
    by (intro executeWithRetry_three_failures [where ?e1.0 = e1 and ?e2.0 = e2])
next
  case False
  have three: "executeWithRetry_loop connected operation 3 (Some e2) s2
                 = (Rejected e3, s3, [Invoke 3])"
    by (rule loop_rejects_at_once [where operation = operation, OF _ assms(5) False])
      (simp add: maxRetries_def)
  have two: "executeWithRetry_loop connected operation 2 (Some e1) s1
               = (Rejected e3, s3, [Invoke 2, Delay 2000, Invoke 3])"
    using loop_retries [where lastError = "Some e1", OF _ assms(3,4) _ three]
    by (simp add: maxRetries_def retryDelay_def)
  show ?thesis
    using loop_retries [where lastError = None, OF _ assms(1,2) _ two]
    by (simp add: executeWithRetry_def maxRetries_def)
qed

lemma loop_pending:
  "attempt \<le> maxRetries \<Longrightarrow> operation s = (Pending, s') \<Longrightarrow>
     executeWithRetry_loop connected operation attempt lastError s
       = (Pending, s', [Invoke attempt])"
  by (subst executeWithRetry_loop.simps) simp

lemma loop_final:
  assumes "attempt \<le> maxRetries" and "operation s = (out, s')"
    and "\<forall>e. out = Rejected e \<longrightarrow> \<not> isNetworkError e \<or> attempt = maxRetries"
  shows "\<exists>evs. executeWithRetry_loop connected operation attempt lastError s = (out, s', evs)"
proof (cases out)
  case (Resolved x)
  with assms(1,2) show ?thesis
    using loop_resolves [of attempt operation s x s' lastError] by simp
next
  case Pending
  with assms(1,2) show ?thesis
    using loop_pending [of attempt operation s s' lastError] by simp
next
  case (Rejected e)
  show ?thesis
  proof (cases "isNetworkError e")
    case False
    with assms(1,2) Rejected show ?thesis
      using loop_rejects_at_once [of attempt operation s e s' lastError] by simp
  next
    case True
    with assms(3) Rejected have last: "attempt = maxRetries" by simp
    then have "executeWithRetry_loop connected operation (attempt + 1) (Some e) s'
                 = (Rejected e, s', [])"
      by (intro loop_past_last_attempt) simp
    from loop_retries [where operation = operation and lastError = lastError, OF assms(1) assms(2) [unfolded Rejected] True refl this]
    show ?thesis
      using Rejected by blast
  qed
qed

lemma executeWithRetry_attempts:
  assumes "executeWithRetry connected operation s = (r, s')"
  shows "(operation s = (r, s') \<and> (\<forall>e. r = Rejected e \<longrightarrow> \<not> isNetworkError e))
       \<or> (\<exists>e1 s1. operation s = (Rejected e1, s1) \<and> isNetworkError e1 \<and>
             operation s1 = (r, s') \<and> (\<forall>e. r = Rejected e \<longrightarrow> \<not> isNetworkError e))
       \<or> (\<exists>e1 s1 e2 s2. operation s = (Rejected e1, s1) \<and> isNetworkError e1 \<and>
             operation s1 = (Rejected e2, s2) \<and> isNetworkError e2 \<and>
             operation s2 = (r, s'))"
proof -
  obtain o1 s1 where op1: "operation s = (o1, s1)"
    by (cases "operation s")
  show ?thesis
  proof (cases "\<forall>e. o1 = Rejected e \<longrightarrow> \<not> isNetworkError e")
    case True
    then have "\<forall>e. o1 = Rejected e \<longrightarrow> \<not> isNetworkError e \<or> (1::nat) = maxRetries"
      by blast
    from loop_final [where operation = operation and attempt = 1 and lastError = None, OF _ op1 this] assms
    have "r = o1" "s' = s1"
      by (auto simp: executeWithRetry_def maxRetries_def)
    with op1 True show ?thesis by blast
  next
    case False
    then obtain e1 where o1: "o1 = Rejected e1" and net1: "isNetworkError e1"
      by blast
    obtain o2 s2 where op2: "operation s1 = (o2, s2)"
      by (cases "operation s1")
    show ?thesis
    proof (cases "\<forall>e. o2 = Rejected e \<longrightarrow> \<not> isNetworkError e")
      case True
      then have "\<forall>e. o2 = Rejected e \<longrightarrow> \<not> isNetworkError e \<or> (2::nat) = maxRetries"
        by blast
      from loop_final [where operation = operation and attempt = 2 and lastError = "Some e1", OF _ op2 this]
      obtain evs where "executeWithRetry_loop connected operation 2 (Some e1) s1 = (o2, s2, evs)"
        by (auto simp: maxRetries_def)
      from loop_retries [where operation = operation and lastError = None, OF _ op1 [unfolded o1] net1 _ this] assms
      have "r = o2" "s' = s2"
        by (auto simp: executeWithRetry_def maxRetries_def)
      with op1 o1 net1 op2 True show ?thesis by blast
    next
      case False
      then obtain e2 where o2: "o2 = Rejected e2" and net2: "isNetworkError e2"
        by blast
      obtain o3 s3 where op3: "operation s2 = (o3, s3)"
        by (cases "operation s2")
      have "\<forall>e. o3 = Rejected e \<longrightarrow> \<not> isNetworkError e \<or> (3::nat) = maxRetries"
        by (simp add: maxRetries_def)
      from loop_final [where operation = operation and attempt = 3 and lastError = "Some e2", OF _ op3 this]
      obtain evs where "executeWithRetry_loop connected operation 3 (Some e2) s2 = (o3, s3, evs)"
        by (auto simp: maxRetries_def)
      from loop_retries [where operation = operation and lastError = "Some e1", OF _ op2 [unfolded o2] net2 _ this]
      obtain evs' where
        "executeWithRetry_loop connected operation 2 (Some e1) s1 = (o3, s3, evs')"
        by (auto simp: maxRetries_def)
      from loop_retries [where operation = operation and lastError = None, OF _ op1 [unfolded o1] net1 _ this] assms
      have "r = o3" "s' = s3"
        by (auto simp: executeWithRetry_def maxRetries_def)
      with op1 o1 net1 op2 o2 net2 op3 show ?thesis by blast
    qed
  qed
qed

lemma example_facts:
  "faults example_store = []"
  "map_of (reviews example_store) ''r1'' = Some (snd (hd (reviews example_store)))"
  "likedBy example_store ''r1'' = {}"
  by (simp_all add: example_store_def)

lemma example_errors:
  "isNetworkError unavailable"
  "\<not> messageIncludes unavailable ''currently building''"
  "\<not> messageIncludes unavailable ''requires an index''"
  "messageIncludes index_building ''currently building''"
  "\<not> isNetworkError permission_denied"
  "\<not> messageIncludes permission_denied ''currently building''"
  "\<not> messageIncludes permission_denied ''requires an index''"
  by (simp_all add: unavailable_def index_building_def permission_denied_def HttpsError_def
      isNetworkError_def messageIncludes_def toLowerCase_def toLowerChar_def includes_str_def
      networkErrorCodes_def sublist_code)

section \<open>Concert logging and entity resolution\<close>

lemma findOrCreateArtist_found:
  assumes "faults s = []"
    and "filter (\<lambda>(k, d). artist_name d = artistName) (artists s) = (k, d) # others"
  shows "findOrCreateArtist connected artistName s = (Resolved (''artists/'' @ k), s)"
  unfolding findOrCreateArtist_def
  by (rule executeWithRetry_resolves)
    (simp add: findOrCreateArtist_operation_def getDocs_no_faults assms)

lemma findOrCreateArtist_created:
  assumes "faults s = []"
    and "filter (\<lambda>(k, d). artist_name d = artistName) (artists s) = []"
  shows "findOrCreateArtist connected artistName s
           = (Resolved (''artists/'' @ idSupply s (nextId s)),
              s\<lparr>nextId := Suc (nextId s),
                artists := artists s @ [(idSupply s (nextId s),
                  \<lparr>artist_name = artistName, artist_createdAt = clock s\<rparr>)]\<rparr>)"
  unfolding findOrCreateArtist_def
  by (rule executeWithRetry_resolves)
    (simp add: findOrCreateArtist_operation_def getDocs_no_faults assms addDoc_artists_def
      backend_no_faults answer_def autoId_def)

lemma findOrCreateVenue_found:
  assumes "faults s = []"
    and "filter (\<lambda>(k, d). venue_name d = venueName) (venues s) = (k, d) # others"
  shows "findOrCreateVenue connected venueName s = (Resolved (''venues/'' @ k), s)"
  unfolding findOrCreateVenue_def
  by (rule executeWithRetry_resolves)
    (simp add: findOrCreateVenue_operation_def getDocs_no_faults assms)

lemma findOrCreateVenue_created:
  assumes "faults s = []"
    and "filter (\<lambda>(k, d). venue_name d = venueName) (venues s) = []"
  shows "findOrCreateVenue connected venueName s
           = (Resolved (''venues/'' @ idSupply s (nextId s)),
              s\<lparr>nextId := Suc (nextId s),
                venues := venues s @ [(idSupply s (nextId s),
                  \<lparr>venue_name = venueName, venue_city = ''Unknown'', venue_state = ''Unknown'',
                   venue_country = ''Unknown'', venue_createdAt = clock s\<rparr>)]\<rparr>)"
  unfolding findOrCreateVenue_def
  by (rule executeWithRetry_resolves)
    (simp add: findOrCreateVenue_operation_def getDocs_no_faults assms addDoc_venues_def
      backend_no_faults answer_def autoId_def)

lemma logConcert_steps:
  assumes "findOrCreateArtist connected artistName s = (Resolved artistRef, s1)"
    and "findOrCreateVenue connected venueName s1 = (Resolved venueRef, s2)"
    and "faults s2 = []"
    and "map_of (users s2) userId = Some u"
  shows "logConcert connected userId artistName venueName date rating notes s
           = (Resolved (idSupply s2 (nextId s2)),
              s2\<lparr>nextId := Suc (nextId s2),
                 concerts := concerts s2 @ [(idSupply s2 (nextId s2),
                   \<lparr>concert_artistRef = artistRef, concert_venueRef = venueRef,
                    concert_date = date, concert_userRef = ''users/'' @ userId,
                    concert_rating = rating,
                    concert_notes = (case notes of Some n \<Rightarrow> n | None \<Rightarrow> []),
                    concert_createdAt = clock s2, concert_updatedAt = clock s2,
                    concert_artistName = None, concert_venueName = None\<rparr>)],
                 users := updateById userId
                   (\<lambda>u. u\<lparr>loggedConcertsCount := loggedConcertsCount u + 1\<rparr>) (users s2)\<rparr>)"
  unfolding logConcert_def
  by (rule executeWithRetry_resolves)
    (simp add: logConcert_operation_def assms addDoc_concerts_def backend_no_faults answer_def
      autoId_def updateDoc_loggedConcertsCount_def logConcertLogged_def)

lemma logConcert_fresh:
  assumes "faults s = []"
    and "artists s = []" and "venues s = []" and "concerts s = []"
    and "map_of (users s) userId = Some u" and "loggedConcertsCount u = 0"
  shows "\<exists>concertId artistId venueId s'.
           logConcert connected userId artistName venueName date rating notes s
             = (Resolved concertId, s') \<and>
           artists s' = [(artistId, \<lparr>artist_name = artistName, artist_createdAt = clock s\<rparr>)] \<and>
           venues s' = [(venueId, \<lparr>venue_name = venueName, venue_city = ''Unknown'',
                                   venue_state = ''Unknown'', venue_country = ''Unknown'',
                                   venue_createdAt = clock s\<rparr>)] \<and>
           concerts s' = [(concertId,
              \<lparr>concert_artistRef = ''artists/'' @ artistId, concert_venueRef = ''venues/'' @ venueId,
               concert_date = date, concert_userRef = ''users/'' @ userId,
               concert_rating = rating,
               concert_notes = (case notes of Some n \<Rightarrow> n | None \<Rightarrow> []),
               concert_createdAt = clock s, concert_updatedAt = clock s,
               concert_artistName = None, concert_venueName = None\<rparr>)] \<and>
           map_of (users s') userId = Some (u\<lparr>loggedConcertsCount := 1\<rparr>) \<and>
           (\<forall>other. other \<noteq> userId \<longrightarrow> map_of (users s') other = map_of (users s) other)"
proof -
  let ?s1 = "s\<lparr>nextId := Suc (nextId s),
                artists := artists s @ [(idSupply s (nextId s),
                  \<lparr>artist_name = artistName, artist_createdAt = clock s\<rparr>)]\<rparr>"
  let ?s2 = "?s1\<lparr>nextId := Suc (nextId ?s1),
                venues := venues ?s1 @ [(idSupply ?s1 (nextId ?s1),
                  \<lparr>venue_name = venueName, venue_city = ''Unknown'', venue_state = ''Unknown'',
                   venue_country = ''Unknown'', venue_createdAt = clock ?s1\<rparr>)]\<rparr>"
  have a: "findOrCreateArtist connected artistName s
             = (Resolved (''artists/'' @ idSupply s (nextId s)), ?s1)"
    by (rule findOrCreateArtist_created) (simp_all add: assms)
  have v: "findOrCreateVenue connected venueName ?s1
             = (Resolved (''venues/'' @ idSupply ?s1 (nextId ?s1)), ?s2)"
    by (rule findOrCreateVenue_created) (simp_all add: assms)
  have "faults ?s2 = []" and "map_of (users ?s2) userId = Some u"
    by (simp_all add: assms)
  from logConcert_steps [OF a v this, of date rating "notes"]
  show ?thesis
    by (simp add: assms map_of_updateById)
qed

lemma fresh_store_one_concert:
  "length (concerts (snd (logConcert connected ''u1'' ''The Band'' ''The Venue'' 5 5 None
               fresh_store))) = 1"
proof -
  have h: "faults fresh_store = []" "artists fresh_store = []" "venues fresh_store = []"
    "concerts fresh_store = []"
    "map_of (users fresh_store) ''u1''
       = Some \<lparr>user_displayName = Some ''u1'', loggedConcertsCount = 0\<rparr>"
    "loggedConcertsCount \<lparr>user_displayName = Some ''u1'', loggedConcertsCount = 0\<rparr> = 0"
    by (simp_all add: fresh_store_def)
  from logConcert_fresh [OF h, of "''The Band''" "''The Venue''" 5 5 None]
  show ?thesis by auto
qed



lemma logConcert_twice:
  assumes "faults s = []"
    and "filter (\<lambda>(k, d). artist_name d = artistName) (artists s) = []"
    and "filter (\<lambda>(k, d). venue_name d = venueName) (venues s) = []"
    and "map_of (users s) userId1 = Some u1" and "map_of (users s) userId2 = Some u2"
  shows "\<exists>concertId1 s1 concertId2 s2 artistId venueId concert1 concert2.
           logConcert connected userId1 artistName venueName date1 rating1 notes1 s
             = (Resolved concertId1, s1) \<and>
           logConcert connected userId2 artistName venueName date2 rating2 notes2 s1
             = (Resolved concertId2, s2) \<and>
           filter (\<lambda>(k, d). artist_name d = artistName) (artists s2)
             = [(artistId, \<lparr>artist_name = artistName, artist_createdAt = clock s\<rparr>)] \<and>
           length (artists s2) = length (artists s) + 1 \<and>
           filter (\<lambda>(k, d). venue_name d = venueName) (venues s2)
             = [(venueId, \<lparr>venue_name = venueName, venue_city = ''Unknown'',
                            venue_state = ''Unknown'', venue_country = ''Unknown'',
                            venue_createdAt = clock s\<rparr>)] \<and>
           length (venues s2) = length (venues s) + 1 \<and>
           concerts s2 = concerts s @ [(concertId1, concert1), (concertId2, concert2)] \<and>
           concert_artistRef concert1 = ''artists/'' @ artistId \<and>
           concert_artistRef concert2 = ''artists/'' @ artistId \<and>
           concert_venueRef concert1 = ''venues/'' @ venueId \<and>
           concert_venueRef concert2 = ''venues/'' @ venueId"
proof -
  let ?artistId = "idSupply s (nextId s)"
  let ?artist = "\<lparr>artist_name = artistName, artist_createdAt = clock s\<rparr>"
  let ?a = "s\<lparr>nextId := Suc (nextId s), artists := artists s @ [(?artistId, ?artist)]\<rparr>"
  let ?venueId = "idSupply ?a (nextId ?a)"
  let ?venue = "\<lparr>venue_name = venueName, venue_city = ''Unknown'', venue_state = ''Unknown'',
                  venue_country = ''Unknown'', venue_createdAt = clock s\<rparr>"
  let ?v = "?a\<lparr>nextId := Suc (nextId ?a), venues := venues ?a @ [(?venueId, ?venue)]\<rparr>"
  have a1: "findOrCreateArtist connected artistName s = (Resolved (''artists/'' @ ?artistId), ?a)"
    by (rule findOrCreateArtist_created) (simp_all add: assms)
  have v1: "findOrCreateVenue connected venueName ?a = (Resolved (''venues/'' @ ?venueId), ?v)"
    using findOrCreateVenue_created [of ?a venueName] assms by simp
  let ?concertId1 = "idSupply ?v (nextId ?v)"
  let ?concert1 = "\<lparr>concert_artistRef = ''artists/'' @ ?artistId,
      concert_venueRef = ''venues/'' @ ?venueId,
      concert_date = date1, concert_userRef = ''users/'' @ userId1, concert_rating = rating1,
      concert_notes = (case notes1 of Some n \<Rightarrow> n | None \<Rightarrow> []),
      concert_createdAt = clock ?v, concert_updatedAt = clock ?v,
      concert_artistName = None, concert_venueName = None\<rparr>"
  let ?s1 = "?v\<lparr>nextId := Suc (nextId ?v),
      concerts := concerts ?v @ [(?concertId1, ?concert1)],
      users := updateById userId1
        (\<lambda>u. u\<lparr>loggedConcertsCount := loggedConcertsCount u + 1\<rparr>) (users ?v)\<rparr>"
  have "faults ?v = []" and "map_of (users ?v) userId1 = Some u1"
    by (simp_all add: assms)
  then have first: "logConcert connected userId1 artistName venueName date1 rating1 notes1 s
                      = (Resolved ?concertId1, ?s1)"
    by (rule logConcert_steps [OF a1 v1])
  have a2: "findOrCreateArtist connected artistName ?s1 = (Resolved (''artists/'' @ ?artistId), ?s1)"
    by (rule findOrCreateArtist_found [where d = ?artist and others = "[]"])
      (simp_all add: assms)
  have v2: "findOrCreateVenue connected venueName ?s1 = (Resolved (''venues/'' @ ?venueId), ?s1)"
    by (rule findOrCreateVenue_found [where d = ?venue and others = "[]"])
      (simp_all add: assms)
  obtain u2' where u2': "map_of (users ?s1) userId2 = Some u2'"
    by (cases "userId2 = userId1") (simp_all add: map_of_updateById assms)
  let ?concertId2 = "idSupply ?s1 (nextId ?s1)"
  let ?concert2 = "\<lparr>concert_artistRef = ''artists/'' @ ?artistId,
      concert_venueRef = ''venues/'' @ ?venueId,
      concert_date = date2, concert_userRef = ''users/'' @ userId2, concert_rating = rating2,
      concert_notes = (case notes2 of Some n \<Rightarrow> n | None \<Rightarrow> []),
      concert_createdAt = clock ?s1, concert_updatedAt = clock ?s1,
      concert_artistName = None, concert_venueName = None\<rparr>"
  let ?s2 = "?s1\<lparr>nextId := Suc (nextId ?s1),
      concerts := concerts ?s1 @ [(?concertId2, ?concert2)],
      users := updateById userId2
        (\<lambda>u. u\<lparr>loggedConcertsCount := loggedConcertsCount u + 1\<rparr>) (users ?s1)\<rparr>"
  have "faults ?s1 = []" by (simp add: assms)
  then have second: "logConcert connected userId2 artistName venueName date2 rating2 notes2 ?s1
                       = (Resolved ?concertId2, ?s2)"
    using u2' by (rule logConcert_steps [OF a2 v2])
  have "filter (\<lambda>(k, d). artist_name d = artistName) (artists ?s2) = [(?artistId, ?artist)]"
    and "length (artists ?s2) = length (artists s) + 1"
    and "filter (\<lambda>(k, d). venue_name d = venueName) (venues ?s2) = [(?venueId, ?venue)]"
    and "length (venues ?s2) = length (venues s) + 1"
    and "concerts ?s2 = concerts s @ [(?concertId1, ?concert1), (?concertId2, ?concert2)]"
    and "concert_artistRef ?concert1 = ''artists/'' @ ?artistId"
    and "concert_artistRef ?concert2 = ''artists/'' @ ?artistId"
    and "concert_venueRef ?concert1 = ''venues/'' @ ?venueId"
    and "concert_venueRef ?concert2 = ''venues/'' @ ?venueId"
    by (simp_all add: assms)
  with first second show ?thesis
    by blast
qed

text \<open>
  C7. With the backend rejecting no request: \<^verbatim>\<open>findOrCreateArtist\<close> and
  \<^verbatim>\<open>findOrCreateVenue\<close> look for the documents whose name equals the given string (equality
  of strings, so case matters); when there is one they return the path of the first and
  leave the store as it is, otherwise they add one document with that name (a venue with
  city, state and country \<^verbatim>\<open>Unknown\<close>) and return its path. So two \<^verbatim>\<open>logConcert\<close> calls one
  after the other with the same artist and venue names, on a store that has neither name,
  both resolve and add one artist and one venue in total, to which both new concerts
  refer.
\<close>

theorem findOrCreate_reuses_entities:
  assumes "faults s = []"
  shows "findOrCreateArtist connected artistName s
           = (case filter (\<lambda>(k, d). artist_name d = artistName) (artists s) of
                (k, d) # others \<Rightarrow> (Resolved (''artists/'' @ k), s)
              | [] \<Rightarrow>
                  (Resolved (''artists/'' @ idSupply s (nextId s)),
                   s\<lparr>nextId := Suc (nextId s),
                     artists := artists s @ [(idSupply s (nextId s),
                       \<lparr>artist_name = artistName, artist_createdAt = clock s\<rparr>)]\<rparr>))
       \<and> findOrCreateVenue connected venueName s
           = (case filter (\<lambda>(k, d). venue_name d = venueName) (venues s) of
                (k, d) # others \<Rightarrow> (Resolved (''venues/'' @ k), s)
              | [] \<Rightarrow>
                  (Resolved (''venues/'' @ idSupply s (nextId s)),
                   s\<lparr>nextId := Suc (nextId s),
                     venues := venues s @ [(idSupply s (nextId s),
                       \<lparr>venue_name = venueName, venue_city = ''Unknown'',
                        venue_state = ''Unknown'', venue_country = ''Unknown'',
                        venue_createdAt = clock s\<rparr>)]\<rparr>))
       \<and> (filter (\<lambda>(k, d). artist_name d = artistName) (artists s) = [] \<and>
          filter (\<lambda>(k, d). venue_name d = venueName) (venues s) = [] \<and>
          map_of (users s) userId1 = Some u1 \<and> map_of (users s) userId2 = Some u2 \<longrightarrow>
          (\<exists>concertId1 s1 concertId2 s2 artistId venueId concert1 concert2.
             logConcert connected userId1 artistName venueName date1 rating1 notes1 s
               = (Resolved concertId1, s1) \<and>
             logConcert connected userId2 artistName venueName date2 rating2 notes2 s1
               = (Resolved concertId2, s2) \<and>
             filter (\<lambda>(k, d). artist_name d = artistName) (artists s2)
               = [(artistId, \<lparr>artist_name = artistName, artist_createdAt = clock s\<rparr>)] \<and>
             length (artists s2) = length (artists s) + 1 \<and>
             filter (\<lambda>(k, d). venue_name d = venueName) (venues s2)
               = [(venueId, \<lparr>venue_name = venueName, venue_city = ''Unknown'',
                              venue_state = ''Unknown'', venue_country = ''Unknown'',
                              venue_createdAt = clock s\<rparr>)] \<and>
             length (venues s2) = length (venues s) + 1 \<and>
             concerts s2 = concerts s @ [(concertId1, concert1), (concertId2, concert2)] \<and>
             concert_artistRef concert1 = ''artists/'' @ artistId \<and>
             concert_artistRef concert2 = ''artists/'' @ artistId \<and>
             concert_venueRef concert1 = ''venues/'' @ venueId \<and>
             concert_venueRef concert2 = ''venues/'' @ venueId))"
proof (intro conjI impI)
  show "findOrCreateArtist connected artistName s
           = (case filter (\<lambda>(k, d). artist_name d = artistName) (artists s) of
                (k, d) # others \<Rightarrow> (Resolved (''artists/'' @ k), s)
              | [] \<Rightarrow>
                  (Resolved (''artists/'' @ idSupply s (nextId s)),
                   s\<lparr>nextId := Suc (nextId s),
                     artists := artists s @ [(idSupply s (nextId s),
                       \<lparr>artist_name = artistName, artist_createdAt = clock s\<rparr>)]\<rparr>))"
  proof (cases "filter (\<lambda>(k, d). artist_name d = artistName) (artists s)")
    case Nil
    with findOrCreateArtist_created [OF assms Nil] show ?thesis by simp
  next
    case (Cons kd others)
    with findOrCreateArtist_found [OF assms, of artistName "fst kd" "snd kd" others]
    show ?thesis by (simp add: case_prod_beta)
  qed
next
  show "findOrCreateVenue connected venueName s
           = (case filter (\<lambda>(k, d). venue_name d = venueName) (venues s) of
                (k, d) # others \<Rightarrow> (Resolved (''venues/'' @ k), s)
              | [] \<Rightarrow>
                  (Resolved (''venues/'' @ idSupply s (nextId s)),
                   s\<lparr>nextId := Suc (nextId s),
                     venues := venues s @ [(idSupply s (nextId s),
                       \<lparr>venue_name = venueName, venue_city = ''Unknown'',
                        venue_state = ''Unknown'', venue_country = ''Unknown'',
                        venue_createdAt = clock s\<rparr>)]\<rparr>))"
  proof (cases "filter (\<lambda>(k, d). venue_name d = venueName) (venues s)")
    case Nil
    with findOrCreateVenue_created [OF assms Nil] show ?thesis by simp
  next
    case (Cons kd others)
    with findOrCreateVenue_found [OF assms, of venueName "fst kd" "snd kd" others]
    show ?thesis by (simp add: case_prod_beta)
  qed
next
  assume h: "filter (\<lambda>(k, d). artist_name d = artistName) (artists s) = [] \<and>
          filter (\<lambda>(k, d). venue_name d = venueName) (venues s) = [] \<and>
          map_of (users s) userId1 = Some u1 \<and> map_of (users s) userId2 = Some u2"
  then show "\<exists>concertId1 s1 concertId2 s2 artistId venueId concert1 concert2.
             logConcert connected userId1 artistName venueName date1 rating1 notes1 s
               = (Resolved concertId1, s1) \<and>
             logConcert connected userId2 artistName venueName date2 rating2 notes2 s1
               = (Resolved concertId2, s2) \<and>
             filter (\<lambda>(k, d). artist_name d = artistName) (artists s2)
               = [(artistId, \<lparr>artist_name = artistName, artist_createdAt = clock s\<rparr>)] \<and>
             length (artists s2) = length (artists s) + 1 \<and>
             filter (\<lambda>(k, d). venue_name d = venueName) (venues s2)
               = [(venueId, \<lparr>venue_name = venueName, venue_city = ''Unknown'',
                              venue_state = ''Unknown'', venue_country = ''Unknown'',
                              venue_createdAt = clock s\<rparr>)] \<and>
             length (venues s2) = length (venues s) + 1 \<and>
             concerts s2 = concerts s @ [(concertId1, concert1), (concertId2, concert2)] \<and>
             concert_artistRef concert1 = ''artists/'' @ artistId \<and>
             concert_artistRef concert2 = ''artists/'' @ artistId \<and>
             concert_venueRef concert1 = ''venues/'' @ venueId \<and>
             concert_venueRef concert2 = ''venues/'' @ venueId"
    using logConcert_twice [OF assms, of artistName venueName userId1 u1 userId2 u2] by blast
qed

theorem findOrCreate_reuses_entities_witness:
  "findOrCreateArtist connected ''The Band'' example_store
     = (Resolved ''artists/a1'', example_store)
   \<and> findOrCreateVenue connected ''The Venue'' example_store
     = (Resolved ''venues/v1'', example_store)
   \<and> (\<exists>concertId1 s1 concertId2 s2 artistId venueId concert1 concert2.
         logConcert connected ''ab'' ''the band'' ''the venue'' 7 4 None example_store
           = (Resolved concertId1, s1) \<and>
         logConcert connected ''b'' ''the band'' ''the venue'' 8 3 (Some ''loud'') s1
           = (Resolved concertId2, s2) \<and>
         filter (\<lambda>(k, d). artist_name d = ''the band'') (artists s2)
           = [(artistId, \<lparr>artist_name = ''the band'', artist_createdAt = 100\<rparr>)] \<and>
         length (artists s2) = 2 \<and>
         filter (\<lambda>(k, d). venue_name d = ''the venue'') (venues s2)
           = [(venueId, \<lparr>venue_name = ''the venue'', venue_city = ''Unknown'',
                          venue_state = ''Unknown'', venue_country = ''Unknown'',
                          venue_createdAt = 100\<rparr>)] \<and>
         length (venues s2) = 2 \<and>
         concerts s2 = concerts example_store @ [(concertId1, concert1), (concertId2, concert2)] \<and>
         concert_artistRef concert1 = ''artists/'' @ artistId \<and>
         concert_artistRef concert2 = ''artists/'' @ artistId \<and>
         concert_venueRef concert1 = ''venues/'' @ venueId \<and>
         concert_venueRef concert2 = ''venues/'' @ venueId)"
proof -
  have f: "faults example_store = []"
    by (simp add: example_store_def)
  have found: "findOrCreateArtist connected ''The Band'' example_store
                 = (Resolved ''artists/a1'', example_store)"
    "findOrCreateVenue connected ''The Venue'' example_store
                 = (Resolved ''venues/v1'', example_store)"
    using findOrCreate_reuses_entities [OF f, of "''The Band''" "''The Venue''"]
    by (simp_all add: example_store_def)
  have h: "filter (\<lambda>(k, d). artist_name d = ''the band'') (artists example_store) = [] \<and>
      filter (\<lambda>(k, d). venue_name d = ''the venue'') (venues example_store) = [] \<and>
      map_of (users example_store) ''ab''
        = Some \<lparr>user_displayName = Some ''ann'', loggedConcertsCount = 1\<rparr> \<and>
      map_of (users example_store) ''b''
        = Some \<lparr>user_displayName = Some ''bob'', loggedConcertsCount = 0\<rparr>"
    by (simp add: example_store_def)
  have c: "clock example_store = 100" "length (artists example_store) = 1"
    "length (venues example_store) = 1" "length (concerts example_store) = 1"
    by (simp_all add: example_store_def)
  note scenario = findOrCreate_reuses_entities [OF f, of "''the band''" "''the venue''" "''ab''"
      "\<lparr>user_displayName = Some ''ann'', loggedConcertsCount = 1\<rparr>" "''b''"
      "\<lparr>user_displayName = Some ''bob'', loggedConcertsCount = 0\<rparr>" 7 4 None 8 3 "Some ''loud''",
      THEN conjunct2, THEN conjunct2, THEN mp, OF h]
  from scenario obtain concertId1 s1 concertId2 s2 artistId venueId concert1 concert2 where
    calls: "logConcert connected ''ab'' ''the band'' ''the venue'' 7 4 None example_store
       = (Resolved concertId1, s1)"
    "logConcert connected ''b'' ''the band'' ''the venue'' 8 3 (Some ''loud'') s1
       = (Resolved concertId2, s2)"
    and after: "filter (\<lambda>(k, d). artist_name d = ''the band'') (artists s2)
       = [(artistId, \<lparr>artist_name = ''the band'', artist_createdAt = clock example_store\<rparr>)]"
    "length (artists s2) = length (artists example_store) + 1"
    "filter (\<lambda>(k, d). venue_name d = ''the venue'') (venues s2)
       = [(venueId, \<lparr>venue_name = ''the venue'', venue_city = ''Unknown'',
                      venue_state = ''Unknown'', venue_country = ''Unknown'',
                      venue_createdAt = clock example_store\<rparr>)]"
    "length (venues s2) = length (venues example_store) + 1"
    "concerts s2 = concerts example_store @ [(concertId1, concert1), (concertId2, concert2)]"
    and refs: "concert_artistRef concert1 = ''artists/'' @ artistId"
    "concert_artistRef concert2 = ''artists/'' @ artistId"
    "concert_venueRef concert1 = ''venues/'' @ venueId"
    "concert_venueRef concert2 = ''venues/'' @ venueId"
    by blast
  from after have
    "filter (\<lambda>(k, d). artist_name d = ''the band'') (artists s2)
       = [(artistId, \<lparr>artist_name = ''the band'', artist_createdAt = 100\<rparr>)]"
    "length (artists s2) = 2"
    "filter (\<lambda>(k, d). venue_name d = ''the venue'') (venues s2)
       = [(venueId, \<lparr>venue_name = ''the venue'', venue_city = ''Unknown'',
                      venue_state = ''Unknown'', venue_country = ''Unknown'',
                      venue_createdAt = 100\<rparr>)]"
    "length (venues s2) = 2"
    "concerts s2 = concerts example_store @ [(concertId1, concert1), (concertId2, concert2)]"
    by (simp_all add: c)
  with calls refs have "\<exists>concertId1 s1 concertId2 s2 artistId venueId concert1 concert2.
         logConcert connected ''ab'' ''the band'' ''the venue'' 7 4 None example_store
           = (Resolved concertId1, s1) \<and>
         logConcert connected ''b'' ''the band'' ''the venue'' 8 3 (Some ''loud'') s1
           = (Resolved concertId2, s2) \<and>
         filter (\<lambda>(k, d). artist_name d = ''the band'') (artists s2)
           = [(artistId, \<lparr>artist_name = ''the band'', artist_createdAt = 100\<rparr>)] \<and>
         length (artists s2) = 2 \<and>
         filter (\<lambda>(k, d). venue_name d = ''the venue'') (venues s2)
           = [(venueId, \<lparr>venue_name = ''the venue'', venue_city = ''Unknown'',
                          venue_state = ''Unknown'', venue_country = ''Unknown'',
                          venue_createdAt = 100\<rparr>)] \<and>
         length (venues s2) = 2 \<and>
         concerts s2 = concerts example_store @ [(concertId1, concert1), (concertId2, concert2)] \<and>
         concert_artistRef concert1 = ''artists/'' @ artistId \<and>
         concert_artistRef concert2 = ''artists/'' @ artistId \<and>
         concert_venueRef concert1 = ''venues/'' @ venueId \<and>
         concert_venueRef concert2 = ''venues/'' @ venueId"
    by (intro exI conjI) assumption+
  with found show ?thesis by (intro conjI) assumption+
qed

section \<open>Reviews\<close>

lemma submitReview_stored:
  assumes "faults s = []" and "map_of (concerts s) concertId = Some concert"
  shows "submitReview concertId userId rating text s
           = (Resolved (idSupply s (nextId s)),
              s\<lparr>nextId := Suc (nextId s),
                reviews := reviews s @ [(idSupply s (nextId s),
                  \<lparr>review_concertRef = ''concerts/'' @ concertId,
                   review_userRef = ''users/'' @ userId,
                   review_text = trim text,
                   review_rating = (if endsWith (concert_userRef concert) userId
                                    then concert_rating concert else rating),
                   review_createdAt = clock s, review_updatedAt = clock s,
                   likesCount = 0, commentsCount = 0\<rparr>)]\<rparr>)"
  by (simp add: submitReview_def getConcertById_def getDocs_no_faults assms addDoc_reviews_def
      backend_no_faults answer_def autoId_def)

lemma submitReview_by_owner:
  assumes "faults s = []" and "map_of (concerts s) concertId = Some concert"
    and "concert_userRef concert = ''users/'' @ userId"
  shows "\<exists>reviewId s' review.
           submitReview concertId userId rating text s = (Resolved reviewId, s') \<and>
           reviews s' = reviews s @ [(reviewId, review)] \<and>
           review_rating review = concert_rating concert"
  unfolding submitReview_stored [OF assms(1,2)]
  by (simp add: assms(3) endsWith_def suffix_def)

text \<open>
  C3. The user \<open>b\<close> is not the owner of the concert \<open>c1\<close>, which \<open>ab\<close> logged with rating 5
  (its \<^verbatim>\<open>userRef\<close> is \<^verbatim>\<open>users/ab\<close>); \<^verbatim>\<open>submitReview\<close> of \<open>b\<close> with rating 1 resolves, and
  the review it stores for \<open>b\<close> has the rating 5 of the concert, not the rating supplied:
  the test \<^verbatim>\<open>concert.userRef.endsWith(userId)\<close> holds for every user id that is a suffix of
  the owner's path.
\<close>

theorem submitReview_suffix_user_gets_concert_rating:
  "fst (submitReview ''c1'' ''b'' 1 (codeUnits ''fine'') example_store) = Resolved ''id''
   \<and> map_of (concerts example_store) ''c1'' \<noteq> None
   \<and> map_option concert_userRef (map_of (concerts example_store) ''c1'') = Some ''users/ab''
   \<and> map_option review_userRef (map_of (reviews (snd (submitReview ''c1'' ''b'' 1 (codeUnits ''fine'') example_store))) ''id'')
       = Some ''users/b''
   \<and> map_option review_rating (map_of (reviews (snd (submitReview ''c1'' ''b'' 1 (codeUnits ''fine'') example_store))) ''id'')
       = Some 5"
proof -
  have f: "faults example_store = []"
    and c: "map_of (concerts example_store) ''c1'' = Some (snd (hd (concerts example_store)))"
    by (simp_all add: example_store_def)
  show ?thesis
    unfolding submitReview_stored [OF f c]
    by (simp add: example_store_def exampleIds_def endsWith_def suffix_to_prefix)
qed

subsection \<open>Reading the reviews of a concert\<close>

lemma newestFirst_sorted:
  "sorted_wrt (\<lambda>a b. review_createdAt (snd b) \<le> review_createdAt (snd a)) (newestFirst docs)"
proof -
  have "sorted (map (\<lambda>(k, d). - review_createdAt d) (newestFirst docs))"
    unfolding newestFirst_def by (rule sorted_sort_key)
  then show ?thesis
    by (simp add: sorted_wrt_map case_prod_beta)
qed

lemma reviewsOfConcert_afterRequest [simp]:
  "reviewsOfConcert concertId (afterRequest s) = reviewsOfConcert concertId s"
  "reviewsOfConcertOrdered concertId (afterRequest s) = reviewsOfConcertOrdered concertId s"
  by (simp_all add: reviewsOfConcert_def reviewsOfConcertOrdered_def)

lemma operation_primary:
  assumes "\<forall>e rest. faults s \<noteq> Some e # rest"
  shows "getConcertReviews_operation concertId s
           = (Resolved (reviewsOfConcertOrdered concertId s, False), afterRequest s)"
  by (simp add: getConcertReviews_operation_def getDocs_answered [OF assms])

lemma operation_fallback:
  assumes "faults s = Some err # rest"
    and "messageIncludes err ''currently building'' \<or> messageIncludes err ''requires an index''"
    and "\<forall>e rest'. rest \<noteq> Some e # rest'"
  shows "getConcertReviews_operation concertId s
           = (Resolved (newestFirst (reviewsOfConcert concertId s), True), s\<lparr>faults := tl rest\<rparr>)"
proof -
  have "\<forall>e rest'. faults (s\<lparr>faults := rest\<rparr>) \<noteq> Some e # rest'"
    using assms(3) by simp
  from getDocs_answered [OF this, of "reviewsOfConcert concertId"] assms(1,2)
  show ?thesis
    by (auto simp: getConcertReviews_operation_def getDocs_rejected afterRequest_def
        reviewsOfConcert_def)
qed

lemma operation_rethrows:
  assumes "faults s = Some err # rest"
    and "\<not> messageIncludes err ''currently building''"
    and "\<not> messageIncludes err ''requires an index''"
  shows "getConcertReviews_operation concertId s = (Rejected err, s\<lparr>faults := rest\<rparr>)"
  using assms by (simp add: getConcertReviews_operation_def getDocs_rejected)

lemma operation_usingFallback:
  assumes "getConcertReviews_operation concertId s = (Resolved (docs, usingFallback), s')"
  shows "usingFallback \<longleftrightarrow>
           (\<exists>err rest. faults s = Some err # rest \<and>
              (messageIncludes err ''currently building'' \<or>
               messageIncludes err ''requires an index''))"
proof (cases "\<exists>err rest. faults s = Some err # rest")
  case False
  then have "\<forall>e rest. faults s \<noteq> Some e # rest" by blast
  from operation_primary [OF this, of concertId] assms False show ?thesis by auto
next
  case True
  then obtain err rest where f: "faults s = Some err # rest" by blast
  with assms show ?thesis
    by (auto simp: getConcertReviews_operation_def getDocs_rejected await_Resolved
        split: if_splits)
qed

lemma example_reviews_of_c1:
  "reviewsOfConcert ''c1'' example_store = reviews example_store"
  "newestFirst (reviews example_store) = reviews example_store"
  by (simp_all add: reviewsOfConcert_def newestFirst_def example_store_def)

text \<open>
  C9 as stated fails: the ordered query fails once with \<^verbatim>\<open>unavailable\<close>, which is neither of
  the two index errors; \<^verbatim>\<open>executeWithRetry\<close> classifies it as transient and runs the
  operation again, the second attempt succeeds, and the caller gets the reviews, not the
  error.
\<close>

theorem getConcertReviews_transient_error_counterexample:
  "fst (getDocs (reviewsOfConcertOrdered ''c1'') flaky_store) = Rejected unavailable
   \<and> \<not> messageIncludes unavailable ''currently building''
   \<and> \<not> messageIncludes unavailable ''requires an index''
   \<and> fst (getConcertReviews connected ''c1'' flaky_store)
       = Resolved (reviews example_store, False)"
proof -
  have f: "faults flaky_store = [Some unavailable]"
    and same: "flaky_store\<lparr>faults := []\<rparr> = example_store"
    by (simp_all add: flaky_store_def example_store_def)
  have first: "getConcertReviews_operation ''c1'' flaky_store = (Rejected unavailable, example_store)"
    using operation_rethrows [OF f example_errors(2,3), of "''c1''"] by (simp add: same)
  have "\<forall>e rest. faults example_store \<noteq> Some e # rest"
    by (simp add: example_facts)
  from operation_primary [OF this, of "''c1''"]
  have second: "getConcertReviews_operation ''c1'' example_store
                  = (Resolved (reviews example_store, False), example_store)"
    by (simp add: afterRequest_no_faults example_facts)
      (simp add: reviewsOfConcertOrdered_def reviewsOfConcert_def newestFirst_def example_store_def)
  have "getConcertReviews connected ''c1'' flaky_store
          = (Resolved (reviews example_store, False), example_store)"
    unfolding getConcertReviews_def
    by (rule executeWithRetry_second_attempt [OF first example_errors(1) second])
  then show ?thesis
    by (simp add: getDocs_rejected [OF f] example_errors)
qed

text \<open>
  C9, amended. In the connected state:
  \<^item> when the ordered query is answered, \<^verbatim>\<open>getConcertReviews\<close> resolves with its result and
    \<^verbatim>\<open>usingFallback = false\<close>;
  \<^item> when it fails with an error whose message contains \<^verbatim>\<open>currently building\<close> or
    \<^verbatim>\<open>requires an index\<close> and the unordered query is answered, it resolves with that
    result sorted by creation time, newest first, and \<^verbatim>\<open>usingFallback = true\<close>;
  \<^item> when it fails with any other error that is not transient-classified, that error is
    propagated at once;
  \<^item> when it fails with other errors that are transient-classified in three attempts
    in a row, the third is propagated;
  \<^item> an attempt that resolves has \<^verbatim>\<open>usingFallback = true\<close> if and only if its ordered query
    failed with one of the two index errors;
  \<^item> the list sorted in memory is in the order of non-increasing creation time, and is
    the list the ordered query returns.
\<close>

theorem getConcertReviews_paths:
  "((\<forall>e rest. faults s \<noteq> Some e # rest) \<longrightarrow>
      getConcertReviews connected concertId s
        = (Resolved (reviewsOfConcertOrdered concertId s, False), afterRequest s))
   \<and> (\<forall>err rest. faults s = Some err # rest \<and>
         (messageIncludes err ''currently building'' \<or> messageIncludes err ''requires an index'') \<and>
         (\<forall>e rest'. rest \<noteq> Some e # rest') \<longrightarrow>
         getConcertReviews connected concertId s
           = (Resolved (newestFirst (reviewsOfConcert concertId s), True), s\<lparr>faults := tl rest\<rparr>))
   \<and> (\<forall>err rest. faults s = Some err # rest \<and>
         \<not> messageIncludes err ''currently building'' \<and>
         \<not> messageIncludes err ''requires an index'' \<and> \<not> isNetworkError err \<longrightarrow>
         getConcertReviews connected concertId s = (Rejected err, s\<lparr>faults := rest\<rparr>))
   \<and> (\<forall>e1 e2 e3 rest. faults s = Some e1 # Some e2 # Some e3 # rest \<and>
         list_all (\<lambda>e. \<not> messageIncludes e ''currently building'' \<and>
                       \<not> messageIncludes e ''requires an index'' \<and> isNetworkError e)
           [e1, e2, e3] \<longrightarrow>
         getConcertReviews connected concertId s = (Rejected e3, s\<lparr>faults := rest\<rparr>))
   \<and> (\<forall>docs usingFallback s'.
         getConcertReviews_operation concertId s = (Resolved (docs, usingFallback), s') \<longrightarrow>
         (usingFallback \<longleftrightarrow>
            (\<exists>err rest. faults s = Some err # rest \<and>
               (messageIncludes err ''currently building'' \<or>
                messageIncludes err ''requires an index''))))
   \<and> sorted_wrt (\<lambda>a b. review_createdAt (snd b) \<le> review_createdAt (snd a))
         (newestFirst (reviewsOfConcert concertId s))
   \<and> reviewsOfConcertOrdered concertId s = newestFirst (reviewsOfConcert concertId s)"
proof (intro conjI allI impI)
  assume "\<forall>e rest. faults s \<noteq> Some e # rest"
  then show "getConcertReviews connected concertId s
        = (Resolved (reviewsOfConcertOrdered concertId s, False), afterRequest s)"
    unfolding getConcertReviews_def
    by (intro executeWithRetry_resolves operation_primary)
next
  fix err rest
  assume "faults s = Some err # rest \<and>
         (messageIncludes err ''currently building'' \<or> messageIncludes err ''requires an index'') \<and>
         (\<forall>e rest'. rest \<noteq> Some e # rest')"
  then show "getConcertReviews connected concertId s
           = (Resolved (newestFirst (reviewsOfConcert concertId s), True), s\<lparr>faults := tl rest\<rparr>)"
    unfolding getConcertReviews_def
    by (intro executeWithRetry_resolves operation_fallback) blast+
next
  fix err rest
  assume "faults s = Some err # rest \<and>
         \<not> messageIncludes err ''currently building'' \<and>
         \<not> messageIncludes err ''requires an index'' \<and> \<not> isNetworkError err"
  then show "getConcertReviews connected concertId s = (Rejected err, s\<lparr>faults := rest\<rparr>)"
    unfolding getConcertReviews_def
    by (intro executeWithRetry_rejects_at_once operation_rethrows) blast+
next
  fix e1 e2 e3 rest
  assume h: "faults s = Some e1 # Some e2 # Some e3 # rest \<and>
         list_all (\<lambda>e. \<not> messageIncludes e ''currently building'' \<and>
                       \<not> messageIncludes e ''requires an index'' \<and> isNetworkError e)
           [e1, e2, e3]"
  let ?s1 = "s\<lparr>faults := Some e2 # Some e3 # rest\<rparr>"
  let ?s2 = "s\<lparr>faults := Some e3 # rest\<rparr>"
  from h have "getConcertReviews_operation concertId s = (Rejected e1, ?s1)"
    by (intro operation_rethrows) simp_all
  moreover from h have "getConcertReviews_operation concertId ?s1 = (Rejected e2, ?s1\<lparr>faults := Some e3 # rest\<rparr>)"
    by (intro operation_rethrows) simp_all
  then have "getConcertReviews_operation concertId ?s1 = (Rejected e2, ?s2)"
    by simp
  moreover from h have "getConcertReviews_operation concertId ?s2 = (Rejected e3, ?s2\<lparr>faults := rest\<rparr>)"
    by (intro operation_rethrows) simp_all
  then have "getConcertReviews_operation concertId ?s2 = (Rejected e3, s\<lparr>faults := rest\<rparr>)"
    by simp
  ultimately show "getConcertReviews connected concertId s = (Rejected e3, s\<lparr>faults := rest\<rparr>)"
    unfolding getConcertReviews_def using h
    by (intro executeWithRetry_three_failures [where ?e1.0 = e1 and ?e2.0 = e2]) simp_all
next
  fix docs usingFallback s'
  assume "getConcertReviews_operation concertId s = (Resolved (docs, usingFallback), s')"
  then show "usingFallback \<longleftrightarrow>
            (\<exists>err rest. faults s = Some err # rest \<and>
               (messageIncludes err ''currently building'' \<or>
                messageIncludes err ''requires an index''))"
    by (rule operation_usingFallback)
next
  show "sorted_wrt (\<lambda>a b. review_createdAt (snd b) \<le> review_createdAt (snd a))
         (newestFirst (reviewsOfConcert concertId s))"
    by (rule newestFirst_sorted)
next
  show "reviewsOfConcertOrdered concertId s = newestFirst (reviewsOfConcert concertId s)"
    by (simp add: reviewsOfConcertOrdered_def)
qed

theorem getConcertReviews_paths_witness:
  "getConcertReviews connected ''c1'' example_store
     = (Resolved (reviews example_store, False), example_store)
   \<and> getConcertReviews connected ''c1'' building_store
     = (Resolved (reviews example_store, True), example_store)
   \<and> getConcertReviews connected ''c1'' denied_store
     = (Rejected permission_denied, example_store)
   \<and> getConcertReviews connected ''c1'' down_store
     = (Rejected unavailable, example_store)"
proof -
  have stores: "building_store\<lparr>faults := []\<rparr> = example_store"
    "denied_store\<lparr>faults := []\<rparr> = example_store"
    "down_store\<lparr>faults := []\<rparr> = example_store"
    "faults building_store = [Some index_building]"
    "faults denied_store = [Some permission_denied]"
    "faults down_store = [Some unavailable, Some unavailable, Some unavailable]"
    "reviewsOfConcert ''c1'' building_store = reviews example_store"
    by (simp_all add: building_store_def denied_store_def down_store_def example_store_def
        reviewsOfConcert_def)
  have "getConcertReviews connected ''c1'' example_store
          = (Resolved (reviews example_store, False), example_store)"
    using getConcertReviews_paths [of example_store "''c1''"]
    by (simp add: example_facts afterRequest_no_faults example_reviews_of_c1)
  moreover
  have "getConcertReviews connected ''c1'' building_store
          = (Resolved (reviews example_store, True), example_store)"
    using getConcertReviews_paths [of building_store "''c1''"]
    by (simp add: stores example_errors example_reviews_of_c1)
  moreover
  have "getConcertReviews connected ''c1'' denied_store
          = (Rejected permission_denied, example_store)"
    using getConcertReviews_paths [of denied_store "''c1''"]
    by (simp add: stores example_errors)
  moreover
  have "getConcertReviews connected ''c1'' down_store = (Rejected unavailable, example_store)"
    using getConcertReviews_paths [of down_store "''c1''"]
    by (simp add: stores example_errors)
  ultimately show ?thesis by blast
qed

section \<open>Likes\<close>

lemma likeReview_Resolved:
  assumes "likeReview auth reviewId userId s = (Resolved res, s')"
  shows "\<exists>d. map_of (reviews s) reviewId = Some d \<and>
           reviews s' = updateById reviewId
             (\<lambda>x. x\<lparr>likesCount := (if userId \<in> likedBy s reviewId
                                      then max 0 (likesCount d - 1) else likesCount d + 1)\<rparr>)
             (reviews s) \<and>
           likedBy s' = (likedBy s)(reviewId :=
             (if userId \<in> likedBy s reviewId then likedBy s reviewId - {userId}
              else insert userId (likedBy s reviewId)))"
  using assms
  by (auto simp: likeReview_def likeReview_membership_def likeReview_toggle_def await_Resolved
      catchInternal_Resolved getDocs_Resolved backend_Resolved getLikesCount_def
      unlikeTransaction_def likeTransaction_def Let_def
      split: option.splits if_splits)

lemma likeReview_no_faults:
  assumes "faults s = []" and "reviewId \<noteq> []" and "userId \<noteq> []"
    and "map_of (reviews s) reviewId = Some d"
  shows "likeReview (Some userId) reviewId userId s
           = (if userId \<in> likedBy s reviewId
              then (Resolved (unliked, max 0 (likesCount d - 1)),
                    s\<lparr>reviews := updateById reviewId
                         (\<lambda>x. x\<lparr>likesCount := max 0 (likesCount d - 1)\<rparr>) (reviews s),
                       likedBy := (likedBy s)(reviewId := likedBy s reviewId - {userId})\<rparr>)
              else (Resolved (liked, likesCount d + 1),
                    s\<lparr>reviews := updateById reviewId
                         (\<lambda>x. x\<lparr>likesCount := likesCount d + 1\<rparr>) (reviews s),
                       likedBy := (likedBy s)(reviewId := insert userId (likedBy s reviewId))\<rparr>))"
  using assms
  by (simp add: likeReview_def likeReview_membership_def likeReview_check_def
      likeReview_toggle_def catchInternal_def getDocs_no_faults backend_no_faults answer_def
      unlikeTransaction_def likeTransaction_def getLikesCount_def map_of_updateById)

lemma likeReview_toggle_no_faults:
  assumes "faults s = []" and "map_of (reviews s) reviewId = Some d"
  shows "likeReview_toggle reviewId userId likedByExists s
           = (if likedByExists
              then (Resolved (unliked, max 0 (likesCount d - 1)),
                    s\<lparr>reviews := updateById reviewId
                         (\<lambda>x. x\<lparr>likesCount := max 0 (likesCount d - 1)\<rparr>) (reviews s),
                       likedBy := (likedBy s)(reviewId := likedBy s reviewId - {userId})\<rparr>)
              else (Resolved (liked, likesCount d + 1),
                    s\<lparr>reviews := updateById reviewId
                         (\<lambda>x. x\<lparr>likesCount := likesCount d + 1\<rparr>) (reviews s),
                       likedBy := (likedBy s)(reviewId := insert userId (likedBy s reviewId))\<rparr>))"
  using assms
  by (simp add: likeReview_toggle_def catchInternal_def getDocs_no_faults backend_no_faults
      answer_def unlikeTransaction_def likeTransaction_def getLikesCount_def map_of_updateById)

lemma unsynced_facts:
  "faults unsynced_store = []"
  "map_of (reviews unsynced_store) ''r1'' = Some (snd (hd (reviews example_store)))"
  "likedBy unsynced_store ''r1'' = {''b''}"
  "likesCount (snd (hd (reviews example_store))) = 0"
  by (simp_all add: unsynced_store_def example_store_def)

lemma likeReview_effect:
  assumes "likeReview auth reviewId userId s = (r, s')"
  shows "(reviews s' = reviews s \<and> likedBy s' = likedBy s) \<or>
         (\<exists>d. map_of (reviews s) reviewId = Some d \<and>
            reviews s' = updateById reviewId
              (\<lambda>x. x\<lparr>likesCount := (if userId \<in> likedBy s reviewId
                                       then max 0 (likesCount d - 1) else likesCount d + 1)\<rparr>)
              (reviews s) \<and>
            likedBy s' = (likedBy s)(reviewId :=
              (if userId \<in> likedBy s reviewId then likedBy s reviewId - {userId}
               else insert userId (likedBy s reviewId))))"
  using assms
  by (auto simp: likeReview_def likeReview_membership_def likeReview_toggle_def await_def
      catchInternal_def getDocs_def backend_afterRequest answer_def getLikesCount_def
      unlikeTransaction_def likeTransaction_def Let_def
      split: option.splits if_splits list.splits outcome.splits prod.splits)

text \<open>Calls that do not overlap keep the counter of every review equal to the number of
  its likes, whatever the backend rejects.\<close>

lemma likeReview_keeps_counter:
  assumes "likeReview auth reviewId userId s = (r, s')"
    and "finite (likedBy s rid)"
    and "\<forall>d. map_of (reviews s) rid = Some d \<longrightarrow> likesCount d = int (card (likedBy s rid))"
  shows "finite (likedBy s' rid) \<and>
         (\<forall>d. map_of (reviews s') rid = Some d \<longrightarrow> likesCount d = int (card (likedBy s' rid)))"
proof -
  from likeReview_effect [OF assms(1)] show ?thesis
  proof
    assume "reviews s' = reviews s \<and> likedBy s' = likedBy s"
    with assms(2,3) show ?thesis by simp
  next
    assume "\<exists>d. map_of (reviews s) reviewId = Some d \<and>
            reviews s' = updateById reviewId
              (\<lambda>x. x\<lparr>likesCount := (if userId \<in> likedBy s reviewId
                                       then max 0 (likesCount d - 1) else likesCount d + 1)\<rparr>)
              (reviews s) \<and>
            likedBy s' = (likedBy s)(reviewId :=
              (if userId \<in> likedBy s reviewId then likedBy s reviewId - {userId}
               else insert userId (likedBy s reviewId)))"
    then obtain d where d: "map_of (reviews s) reviewId = Some d"
      and r: "reviews s' = updateById reviewId
              (\<lambda>x. x\<lparr>likesCount := (if userId \<in> likedBy s reviewId
                                       then max 0 (likesCount d - 1) else likesCount d + 1)\<rparr>)
              (reviews s)"
      and l: "likedBy s' = (likedBy s)(reviewId :=
              (if userId \<in> likedBy s reviewId then likedBy s reviewId - {userId}
               else insert userId (likedBy s reviewId)))"
      by blast
    show ?thesis
    proof (cases "rid = reviewId")
      case False
      with assms(2,3) r l show ?thesis by (simp add: map_of_updateById)
    next
      case True
      with assms(3) d have count: "likesCount d = int (card (likedBy s reviewId))" by simp
      from True assms(2) have fin: "finite (likedBy s reviewId)" by simp
      show ?thesis
      proof (cases "userId \<in> likedBy s reviewId")
        case member: True
        with fin have "card (likedBy s reviewId) \<ge> 1"
          by (metis card_gt_0_iff empty_iff less_eq_Suc_le One_nat_def)
        with member fin count True d show ?thesis
          unfolding r l by (simp add: map_of_updateById card_Diff_singleton)
      next
        case False
        with fin count True d show ?thesis
          unfolding r l by (simp add: map_of_updateById)
      qed
    qed
  qed
qed

text \<open>
  C1. Two calls of \<^verbatim>\<open>likeReview\<close> by the user \<open>b\<close> for the review \<open>r1\<close> (no likes, counter
  0) that overlap: each reads the like-membership document before either transaction has
  run, so each finds none; then the two transactions run one after the other, each
  adding 1 to the counter and writing the same membership document. The counter ends at
  2 and the \<^verbatim>\<open>likedBy\<close> collection holds one document: the membership is read outside
  the transaction.
\<close>

theorem likeReview_overlapping_calls_break_counter:
  "likeReview_membership (Some ''b'') ''r1'' ''b'' example_store = (Resolved False, example_store)
   \<and> fst (likeReview_toggle ''r1'' ''b'' False example_store) = Resolved (liked, 1)
   \<and> fst (likeReview_toggle ''r1'' ''b'' False
            (snd (likeReview_toggle ''r1'' ''b'' False example_store))) = Resolved (liked, 2)
   \<and> map_option likesCount
        (map_of (reviews (snd (likeReview_toggle ''r1'' ''b'' False
            (snd (likeReview_toggle ''r1'' ''b'' False example_store))))) ''r1'') = Some 2
   \<and> likedBy (snd (likeReview_toggle ''r1'' ''b'' False
            (snd (likeReview_toggle ''r1'' ''b'' False example_store)))) ''r1'' = {''b''}"
proof -
  let ?d = "snd (hd (reviews example_store))"
  let ?s1 = "example_store\<lparr>reviews := updateById ''r1''
                 (\<lambda>x. x\<lparr>likesCount := likesCount ?d + 1\<rparr>) (reviews example_store),
               likedBy := (likedBy example_store)(''r1'' := insert ''b'' (likedBy example_store ''r1''))\<rparr>"
  have read: "likeReview_membership (Some ''b'') ''r1'' ''b'' example_store
                = (Resolved False, example_store)"
    by (simp add: likeReview_membership_def likeReview_check_def getDocs_no_faults
        catchInternal_def example_facts)
  have first: "likeReview_toggle ''r1'' ''b'' False example_store
                 = (Resolved (liked, likesCount ?d + 1), ?s1)"
    by (subst likeReview_toggle_no_faults [OF example_facts(1,2)]) simp
  have s1: "faults ?s1 = []"
    "map_of (reviews ?s1) ''r1'' = Some (?d\<lparr>likesCount := likesCount ?d + 1\<rparr>)"
    by (simp_all add: example_facts map_of_updateById)
  have second: "likeReview_toggle ''r1'' ''b'' False ?s1
      = (Resolved (liked, likesCount ?d + 1 + 1),
         ?s1\<lparr>reviews := updateById ''r1''
                (\<lambda>x. x\<lparr>likesCount := likesCount ?d + 1 + 1\<rparr>) (reviews ?s1),
            likedBy := (likedBy ?s1)(''r1'' := insert ''b'' (likedBy ?s1 ''r1''))\<rparr>)"
    by (subst likeReview_toggle_no_faults [OF s1]) simp
  have zero: "likesCount ?d = 0"
    by (simp add: example_store_def)
  show ?thesis
    unfolding read first second fst_conv snd_conv
    by (simp add: example_facts map_of_updateById zero)
qed

text \<open>
  C2 as stated fails: in a store where \<open>b\<close> likes the review \<open>r1\<close> while its counter is 0,
  the first toggle removes the like and leaves the counter at 0 (the floor), the second
  adds the like and sets the counter to 1.
\<close>

theorem toggleReviewLike_twice_counterexample:
  "map_option likesCount (map_of (reviews unsynced_store) ''r1'') = Some 0
   \<and> ''b'' \<in> likedBy unsynced_store ''r1''
   \<and> fst (toggleReviewLike (Some ''b'') ''r1'' ''b'' unsynced_store) = Resolved (unliked, 0)
   \<and> fst (toggleReviewLike (Some ''b'') ''r1'' ''b''
            (snd (toggleReviewLike (Some ''b'') ''r1'' ''b'' unsynced_store))) = Resolved (liked, 1)
   \<and> map_option likesCount
        (map_of (reviews (snd (toggleReviewLike (Some ''b'') ''r1'' ''b''
            (snd (toggleReviewLike (Some ''b'') ''r1'' ''b'' unsynced_store))))) ''r1'') = Some 1"
proof -
  let ?d = "snd (hd (reviews example_store))"
  let ?s1 = "unsynced_store\<lparr>reviews := updateById ''r1''
                 (\<lambda>x. x\<lparr>likesCount := max 0 (likesCount ?d - 1)\<rparr>) (reviews unsynced_store),
               likedBy := (likedBy unsynced_store)(''r1'' := likedBy unsynced_store ''r1'' - {''b''})\<rparr>"
  have first: "toggleReviewLike (Some ''b'') ''r1'' ''b'' unsynced_store
                 = (Resolved (unliked, 0), ?s1)"
    unfolding toggleReviewLike_def
    by (subst likeReview_no_faults [OF unsynced_facts(1) _ _ unsynced_facts(2)])
      (simp_all add: unsynced_facts)
  have s1: "faults ?s1 = []" "map_of (reviews ?s1) ''r1'' = Some (?d\<lparr>likesCount := 0\<rparr>)"
    "''b'' \<notin> likedBy ?s1 ''r1''"
    by (simp_all add: unsynced_facts map_of_updateById)
  have second: "toggleReviewLike (Some ''b'') ''r1'' ''b'' ?s1
      = (Resolved (liked, 1),
         ?s1\<lparr>reviews := updateById ''r1'' (\<lambda>x. x\<lparr>likesCount := 1\<rparr>) (reviews ?s1),
            likedBy := (likedBy ?s1)(''r1'' := insert ''b'' (likedBy ?s1 ''r1''))\<rparr>)"
    unfolding toggleReviewLike_def
    by (subst likeReview_no_faults [OF s1(1) _ _ s1(2)]) (simp_all add: s1(3))
  show ?thesis
    unfolding first second fst_conv snd_conv
    by (simp add: unsynced_facts map_of_updateById)
qed

text \<open>
  C2, amended. When the counter of the review is not negative and, if the user likes the
  review, at least 1 (as it is whenever the counter is the number of likes), two
  consecutive calls of \<^verbatim>\<open>toggleReviewLike\<close> for the same review and user that both resolve
  leave every review document and every \<^verbatim>\<open>likedBy\<close> collection as they were.
\<close>

theorem toggleReviewLike_twice_restores:
  assumes "toggleReviewLike auth reviewId userId s = (Resolved res1, s1)"
    and "toggleReviewLike auth reviewId userId s1 = (Resolved res2, s2)"
    and "\<forall>d. map_of (reviews s) reviewId = Some d \<longrightarrow>
           0 \<le> likesCount d \<and> (userId \<in> likedBy s reviewId \<longrightarrow> 1 \<le> likesCount d)"
  shows "map_of (reviews s2) = map_of (reviews s) \<and> likedBy s2 = likedBy s"
proof -
  from assms(1) obtain d where d: "map_of (reviews s) reviewId = Some d"
    and r1: "reviews s1 = updateById reviewId
             (\<lambda>x. x\<lparr>likesCount := (if userId \<in> likedBy s reviewId
                                      then max 0 (likesCount d - 1) else likesCount d + 1)\<rparr>)
             (reviews s)"
    and l1: "likedBy s1 = (likedBy s)(reviewId :=
             (if userId \<in> likedBy s reviewId then likedBy s reviewId - {userId}
              else insert userId (likedBy s reviewId)))"
    unfolding toggleReviewLike_def by (blast dest: likeReview_Resolved)
  from assms(2) obtain d1 where d1: "map_of (reviews s1) reviewId = Some d1"
    and r2: "reviews s2 = updateById reviewId
             (\<lambda>x. x\<lparr>likesCount := (if userId \<in> likedBy s1 reviewId
                                      then max 0 (likesCount d1 - 1) else likesCount d1 + 1)\<rparr>)
             (reviews s1)"
    and l2: "likedBy s2 = (likedBy s1)(reviewId :=
             (if userId \<in> likedBy s1 reviewId then likedBy s1 reviewId - {userId}
              else insert userId (likedBy s1 reviewId)))"
    unfolding toggleReviewLike_def by (blast dest: likeReview_Resolved)
  from assms(3) d have pre: "0 \<le> likesCount d" "userId \<in> likedBy s reviewId \<Longrightarrow> 1 \<le> likesCount d"
    by simp_all
  have "likedBy s2 = likedBy s"
    unfolding l2 l1 by (auto simp: fun_eq_iff)
  moreover have "map_of (reviews s2) k = map_of (reviews s) k" for k
  proof (cases "userId \<in> likedBy s reviewId")
    case True
    with pre d d1 show ?thesis
      unfolding r2 l1 unfolding r1 by (auto simp: map_of_updateById)
  next
    case False
    with pre d d1 show ?thesis
      unfolding r2 l1 unfolding r1 by (auto simp: map_of_updateById)
  qed
  ultimately show ?thesis by (simp add: fun_eq_iff)
qed

theorem toggleReviewLike_twice_restores_witness:
  "fst (toggleReviewLike (Some ''b'') ''r1'' ''b'' example_store) = Resolved (liked, 1)
   \<and> fst (toggleReviewLike (Some ''b'') ''r1'' ''b''
            (snd (toggleReviewLike (Some ''b'') ''r1'' ''b'' example_store)))
       = Resolved (unliked, 0)
   \<and> map_of (reviews (snd (toggleReviewLike (Some ''b'') ''r1'' ''b''
            (snd (toggleReviewLike (Some ''b'') ''r1'' ''b'' example_store)))))
       = map_of (reviews example_store)
   \<and> likedBy (snd (toggleReviewLike (Some ''b'') ''r1'' ''b''
            (snd (toggleReviewLike (Some ''b'') ''r1'' ''b'' example_store))))
       = likedBy example_store"
proof -
  let ?d = "snd (hd (reviews example_store))"
  let ?s1 = "example_store\<lparr>reviews := updateById ''r1''
                 (\<lambda>x. x\<lparr>likesCount := likesCount ?d + 1\<rparr>) (reviews example_store),
               likedBy := (likedBy example_store)(''r1'' := insert ''b'' (likedBy example_store ''r1''))\<rparr>"
  let ?d1 = "?d\<lparr>likesCount := likesCount ?d + 1\<rparr>"
  let ?s2 = "?s1\<lparr>reviews := updateById ''r1''
                 (\<lambda>x. x\<lparr>likesCount := max 0 (likesCount ?d1 - 1)\<rparr>) (reviews ?s1),
               likedBy := (likedBy ?s1)(''r1'' := likedBy ?s1 ''r1'' - {''b''})\<rparr>"
  have zero: "likesCount ?d = 0"
    by (simp add: example_store_def)
  have first: "toggleReviewLike (Some ''b'') ''r1'' ''b'' example_store
                 = (Resolved (liked, 1), ?s1)"
    unfolding toggleReviewLike_def
    by (subst likeReview_no_faults [OF example_facts(1) _ _ example_facts(2)])
      (simp_all add: example_facts zero)
  have s1: "faults ?s1 = []" "map_of (reviews ?s1) ''r1'' = Some ?d1"
    by (simp_all add: example_facts map_of_updateById)
  have second: "toggleReviewLike (Some ''b'') ''r1'' ''b'' ?s1 = (Resolved (unliked, 0), ?s2)"
    unfolding toggleReviewLike_def
    by (subst likeReview_no_faults [OF s1(1) _ _ s1(2)]) (simp_all add: zero)
  have pre: "\<forall>d. map_of (reviews example_store) ''r1'' = Some d \<longrightarrow>
               0 \<le> likesCount d \<and> (''b'' \<in> likedBy example_store ''r1'' \<longrightarrow> 1 \<le> likesCount d)"
    by (simp add: example_facts zero)
  from toggleReviewLike_twice_restores [OF first second pre] first second
  show ?thesis by simp
qed

section \<open>Comments\<close>

lemma trim_Nil_iff: "trim s = [] \<longleftrightarrow> list_all isWhiteSpace s"
proof
  assume "trim s = []"
  then have rest: "\<forall>x \<in> set (dropWhile isWhiteSpace s). isWhiteSpace x"
    by (simp add: trim_def)
  have "dropWhile isWhiteSpace s = []"
  proof (rule ccontr)
    assume nonempty: "dropWhile isWhiteSpace s \<noteq> []"
    then have "\<not> isWhiteSpace (hd (dropWhile isWhiteSpace s))"
      by (rule hd_dropWhile)
    moreover from nonempty have "hd (dropWhile isWhiteSpace s) \<in> set (dropWhile isWhiteSpace s)"
      by (rule hd_in_set)
    ultimately show False
      using rest by blast
  qed
  then show "list_all isWhiteSpace s"
    by (simp add: list_all_iff)
next
  assume "list_all isWhiteSpace s"
  then show "trim s = []"
    by (auto simp: trim_def list_all_iff dest: set_dropWhileD)
qed

lemma addComment_rejects:
  "list_all isWhiteSpace commentText \<or> auth \<noteq> Some userId \<Longrightarrow>
     \<exists>e. addCommentToReview auth reviewId userId commentText s = (Rejected e, s)"
  by (auto simp: addCommentToReview_def addComment_def addComment_check_def trim_Nil_iff
      split: option.splits)

lemma addComment_errors:
  "auth = None \<Longrightarrow>
     addCommentToReview auth reviewId userId commentText s
       = (Rejected (HttpsError ''unauthenticated'' ''User must be authenticated''), s)"
  "auth = Some uid \<Longrightarrow> reviewId = [] \<or> userId = [] \<or> list_all isWhiteSpace commentText \<Longrightarrow>
     addCommentToReview auth reviewId userId commentText s
       = (Rejected (HttpsError ''invalid-argument''
                      ''Review ID, User ID, and comment text are required''), s)"
  "auth = Some uid \<Longrightarrow> reviewId \<noteq> [] \<Longrightarrow> userId \<noteq> [] \<Longrightarrow>
   \<not> list_all isWhiteSpace commentText \<Longrightarrow> userId \<noteq> uid \<Longrightarrow>
     addCommentToReview auth reviewId userId commentText s
       = (Rejected (HttpsError ''permission-denied'' ''Cannot comment for other users''), s)"
  by (auto simp: addCommentToReview_def addComment_def addComment_check_def trim_Nil_iff)

lemma addComment_Resolved:
  assumes "addCommentToReview auth reviewId userId commentText s = (Resolved r, s')"
  shows "\<exists>d. map_of (reviews s) reviewId = Some d \<and>
           comments s' = (comments s)(reviewId := comments s reviewId @
             [(idSupply s (nextId s),
               \<lparr>comment_userRef = ''users/'' @ userId, comment_text = trim commentText,
                comment_createdAt = clock s\<rparr>)]) \<and>
           reviews s' = updateById reviewId (\<lambda>x. x\<lparr>commentsCount := commentsCount d + 1\<rparr>)
                          (reviews s)"
  using assms
  by (auto simp: addCommentToReview_def addComment_def await_Resolved catchInternal_Resolved
      backend_Resolved addCommentTransaction_def autoId_def Let_def
      split: option.splits if_splits)

lemma addComment_succeeds:
  assumes "\<forall>e rest. faults s \<noteq> Some e # rest"
    and "reviewId \<noteq> []" and "userId \<noteq> []" and "\<not> list_all isWhiteSpace commentText"
    and "map_of (reviews s) reviewId = Some d"
  shows "\<exists>s'. addCommentToReview (Some userId) reviewId userId commentText s = (Resolved True, s')"
proof -
  from assms(4) have "commentText \<noteq> []" and "trim commentText \<noteq> []"
    by (auto simp: trim_Nil_iff)
  with assms show ?thesis
    by (auto simp: addCommentToReview_def addComment_def addComment_check_def
        backend_afterRequest answer_def addCommentTransaction_def autoId_def catchInternal_def
        split: list.splits option.splits)
qed

lemma addComment_all_or_nothing:
  assumes "addCommentToReview auth reviewId userId commentText s = (r, s')"
    and "\<forall>x. r \<noteq> Resolved x"
  shows "comments s' = comments s \<and> reviews s' = reviews s"
  using assms
  by (auto simp: addCommentToReview_def addComment_def backend_afterRequest answer_def
      catchInternal_def await_def addCommentTransaction_def autoId_def Let_def
      split: option.splits if_splits list.splits sum.splits)

text \<open>
  C8. \<^verbatim>\<open>addCommentToReview\<close> rejects a comment text that is empty or consists of white
  space and line terminators only (those of \<^verbatim>\<open>String.prototype.trim\<close>, among them the
  no-break space, the byte order mark and the Unicode space separators), and a caller who
  is not the user of the \<^verbatim>\<open>userId\<close> argument, leaving the store exactly as it was. When it
  resolves, the review exists, its \<^verbatim>\<open>comments\<close> collection has one more document, at the
  end, with the trimmed text and the user's path, its \<^verbatim>\<open>commentsCount\<close> is the former one
  plus 1, and no other collection of comments changed. It does resolve when the caller is
  the user, the ids are not empty, the text is not white space only, the review exists
  and the backend does not reject the transaction. When it does not resolve, no comment
  and no review document has changed. The error is \<^verbatim>\<open>unauthenticated\<close> for a caller who is
  not signed in, else \<^verbatim>\<open>invalid-argument\<close> for an empty id or a text of white space only,
  else \<^verbatim>\<open>permission-denied\<close> for a caller who is not the user.
\<close>

theorem addCommentToReview_contract:
  "(list_all isWhiteSpace commentText \<or> auth \<noteq> Some userId \<longrightarrow>
      (\<exists>e. addCommentToReview auth reviewId userId commentText s = (Rejected e, s)))
   \<and> (\<forall>r s'. addCommentToReview auth reviewId userId commentText s = (Resolved r, s') \<longrightarrow>
        (\<exists>d. map_of (reviews s) reviewId = Some d \<and>
           comments s' = (comments s)(reviewId := comments s reviewId @
             [(idSupply s (nextId s),
               \<lparr>comment_userRef = ''users/'' @ userId, comment_text = trim commentText,
                comment_createdAt = clock s\<rparr>)]) \<and>
           reviews s' = updateById reviewId (\<lambda>x. x\<lparr>commentsCount := commentsCount d + 1\<rparr>)
                          (reviews s)))
   \<and> ((\<forall>e rest. faults s \<noteq> Some e # rest) \<and> auth = Some userId \<and> reviewId \<noteq> [] \<and>
        userId \<noteq> [] \<and> \<not> list_all isWhiteSpace commentText \<and>
        map_of (reviews s) reviewId \<noteq> None \<longrightarrow>
        (\<exists>s'. addCommentToReview auth reviewId userId commentText s = (Resolved True, s')))
   \<and> (\<forall>r s'. addCommentToReview auth reviewId userId commentText s = (r, s') \<and>
        (\<forall>x. r \<noteq> Resolved x) \<longrightarrow> comments s' = comments s \<and> reviews s' = reviews s)
   \<and> (auth = None \<longrightarrow>
        addCommentToReview auth reviewId userId commentText s
          = (Rejected (HttpsError ''unauthenticated'' ''User must be authenticated''), s))
   \<and> (auth \<noteq> None \<and> (reviewId = [] \<or> userId = [] \<or> list_all isWhiteSpace commentText) \<longrightarrow>
        addCommentToReview auth reviewId userId commentText s
          = (Rejected (HttpsError ''invalid-argument''
                         ''Review ID, User ID, and comment text are required''), s))
   \<and> (auth \<noteq> None \<and> reviewId \<noteq> [] \<and> userId \<noteq> [] \<and> \<not> list_all isWhiteSpace commentText \<and>
        auth \<noteq> Some userId \<longrightarrow>
        addCommentToReview auth reviewId userId commentText s
          = (Rejected (HttpsError ''permission-denied'' ''Cannot comment for other users''), s))"
proof (intro conjI)
  show "list_all isWhiteSpace commentText \<or> auth \<noteq> Some userId \<longrightarrow>
      (\<exists>e. addCommentToReview auth reviewId userId commentText s = (Rejected e, s))"
    using addComment_rejects [of commentText auth userId reviewId s] by blast
  show "\<forall>r s'. addCommentToReview auth reviewId userId commentText s = (Resolved r, s') \<longrightarrow>
        (\<exists>d. map_of (reviews s) reviewId = Some d \<and>
           comments s' = (comments s)(reviewId := comments s reviewId @
             [(idSupply s (nextId s),
               \<lparr>comment_userRef = ''users/'' @ userId, comment_text = trim commentText,
                comment_createdAt = clock s\<rparr>)]) \<and>
           reviews s' = updateById reviewId (\<lambda>x. x\<lparr>commentsCount := commentsCount d + 1\<rparr>)
                          (reviews s))"
    using addComment_Resolved [of auth reviewId userId commentText s] by blast
  show "(\<forall>e rest. faults s \<noteq> Some e # rest) \<and> auth = Some userId \<and> reviewId \<noteq> [] \<and>
        userId \<noteq> [] \<and> \<not> list_all isWhiteSpace commentText \<and>
        map_of (reviews s) reviewId \<noteq> None \<longrightarrow>
        (\<exists>s'. addCommentToReview auth reviewId userId commentText s = (Resolved True, s'))"
    using addComment_succeeds [of s reviewId userId commentText] by blast
  show "\<forall>r s'. addCommentToReview auth reviewId userId commentText s = (r, s') \<and>
        (\<forall>x. r \<noteq> Resolved x) \<longrightarrow> comments s' = comments s \<and> reviews s' = reviews s"
    using addComment_all_or_nothing [of auth reviewId userId commentText s] by blast
  show "auth = None \<longrightarrow>
        addCommentToReview auth reviewId userId commentText s
          = (Rejected (HttpsError ''unauthenticated'' ''User must be authenticated''), s)"
    using addComment_errors(1) [of auth reviewId userId commentText s] by blast
  show "auth \<noteq> None \<and> (reviewId = [] \<or> userId = [] \<or> list_all isWhiteSpace commentText) \<longrightarrow>
        addCommentToReview auth reviewId userId commentText s
          = (Rejected (HttpsError ''invalid-argument''
                         ''Review ID, User ID, and comment text are required''), s)"
    using addComment_errors(2) [of auth _ reviewId userId commentText s] by blast
  show "auth \<noteq> None \<and> reviewId \<noteq> [] \<and> userId \<noteq> [] \<and> \<not> list_all isWhiteSpace commentText \<and>
        auth \<noteq> Some userId \<longrightarrow>
        addCommentToReview auth reviewId userId commentText s
          = (Rejected (HttpsError ''permission-denied'' ''Cannot comment for other users''), s)"
    using addComment_errors(3) [of auth _ reviewId userId commentText s] by blast
qed

text \<open>Texts of white space only: three spaces; a no-break space, an em space, a byte order
  mark, a line separator and a line feed. A text with a no-break space before and an
  ideographic space after \<^verbatim>\<open>nice!\<close>. The zero width space U+200B is not white space.\<close>

lemma trim_examples:
  "list_all isWhiteSpace (codeUnits ''   '')"
  "list_all isWhiteSpace [0x00A0, 0x2003, 0xFEFF, 0x2028, 0x000A]"
  "\<not> list_all isWhiteSpace (0x00A0 # codeUnits '' nice! '' @ [0x3000])"
  "trim (0x00A0 # codeUnits '' nice! '' @ [0x3000]) = codeUnits ''nice!''"
  "\<not> list_all isWhiteSpace [0x200B]"
  "\<not> list_all isWhiteSpace (codeUnits ''nice!'')"
  by (simp_all add: trim_def isWhiteSpace_def whiteSpace_def lineTerminator_def codeUnits_def)

theorem addCommentToReview_contract_witness:
  "addCommentToReview (Some ''b'') ''r1'' ''b'' (codeUnits ''   '') example_store
     = (Rejected (HttpsError ''invalid-argument''
                    ''Review ID, User ID, and comment text are required''), example_store)
   \<and> addCommentToReview (Some ''b'') ''r1'' ''b'' [0x00A0, 0x2003, 0xFEFF, 0x2028, 0x000A]
       example_store
     = (Rejected (HttpsError ''invalid-argument''
                    ''Review ID, User ID, and comment text are required''), example_store)
   \<and> addCommentToReview (Some ''ab'') ''r1'' ''b'' (codeUnits ''nice!'') example_store
     = (Rejected (HttpsError ''permission-denied'' ''Cannot comment for other users''),
        example_store)
   \<and> (\<exists>s'. addCommentToReview (Some ''b'') ''r1'' ''b''
             (0x00A0 # codeUnits '' nice! '' @ [0x3000]) example_store
           = (Resolved True, s') \<and>
         comments s' ''r1''
           = [(''id'', \<lparr>comment_userRef = ''users/b'', comment_text = codeUnits ''nice!'',
                        comment_createdAt = 100\<rparr>)] \<and>
         map_option commentsCount (map_of (reviews s') ''r1'') = Some 1)"
proof -
  have blank: "addCommentToReview (Some ''b'') ''r1'' ''b'' (codeUnits ''   '') example_store
     = (Rejected (HttpsError ''invalid-argument''
                    ''Review ID, User ID, and comment text are required''), example_store)"
    using addCommentToReview_contract
      [of "codeUnits ''   ''" "Some ''b''" "''b''" "''r1''" example_store]
    by (simp add: trim_examples)
  have spaces: "addCommentToReview (Some ''b'') ''r1'' ''b''
       [0x00A0, 0x2003, 0xFEFF, 0x2028, 0x000A] example_store
     = (Rejected (HttpsError ''invalid-argument''
                    ''Review ID, User ID, and comment text are required''), example_store)"
    using addCommentToReview_contract
      [of "[0x00A0, 0x2003, 0xFEFF, 0x2028, 0x000A]" "Some ''b''" "''b''" "''r1''" example_store]
      trim_examples(2)
    by simp
  have other: "addCommentToReview (Some ''ab'') ''r1'' ''b'' (codeUnits ''nice!'') example_store
     = (Rejected (HttpsError ''permission-denied'' ''Cannot comment for other users''),
        example_store)"
    using addCommentToReview_contract
      [of "codeUnits ''nice!''" "Some ''ab''" "''b''" "''r1''" example_store] trim_examples(6)
    by simp
  have facts: "\<forall>e rest. faults example_store \<noteq> Some e # rest"
    "map_of (reviews example_store) ''r1'' \<noteq> None"
    "comments example_store ''r1'' = []" "idSupply example_store (nextId example_store) = ''id''"
    "clock example_store = 100"
    "map_option commentsCount (map_of (reviews example_store) ''r1'') = Some 0"
    by (simp_all add: example_store_def exampleIds_def)
  let ?text = "0x00A0 # codeUnits '' nice! '' @ [0x3000]"
  note c = addCommentToReview_contract [of ?text "Some ''b''" "''b''" "''r1''" example_store]
  from c facts(1,2) trim_examples(3) obtain s' where
    ok: "addCommentToReview (Some ''b'') ''r1'' ''b'' ?text example_store = (Resolved True, s')"
    by auto
  with c obtain d where "map_of (reviews example_store) ''r1'' = Some d"
    "comments s' = (comments example_store)(''r1'' := comments example_store ''r1'' @
       [(idSupply example_store (nextId example_store),
         \<lparr>comment_userRef = ''users/'' @ ''b'', comment_text = trim ?text,
          comment_createdAt = clock example_store\<rparr>)])"
    "reviews s' = updateById ''r1'' (\<lambda>x. x\<lparr>commentsCount := commentsCount d + 1\<rparr>)
                    (reviews example_store)"
    by blast
  with facts have "comments s' ''r1''
           = [(''id'', \<lparr>comment_userRef = ''users/b'', comment_text = codeUnits ''nice!'',
                        comment_createdAt = 100\<rparr>)]"
    "map_option commentsCount (map_of (reviews s') ''r1'') = Some 1"
    by (simp_all add: trim_examples(4) map_of_updateById)
  with ok blank spaces other show ?thesis by blast
qed

section \<open>The feed\<close>

lemma getFollowingUsers_result:
  assumes "getFollowingUsers cs userId s = (r, s')"
  shows "sameDocuments s s' \<and> (\<forall>ids. r = Resolved ids \<longrightarrow> ids = [] \<or> ids = following s userId)
         \<and> (\<forall>e. r \<noteq> Rejected e) \<and> (cs = connected \<longrightarrow> r \<noteq> Pending)"
proof -
  let ?op = "getDocs (\<lambda>s. following s userId)"
  obtain r0 where run: "executeWithRetry cs ?op s = (r0, s')"
    and r: "r = (case r0 of Rejected e \<Rightarrow> Resolved [] | other \<Rightarrow> other)"
    using assms
    by (cases "executeWithRetry cs ?op s"; cases "fst (executeWithRetry cs ?op s)")
      (auto simp: getFollowingUsers_def catchDefault_def)
  have step: "\<And>a r b. sameDocuments s a \<Longrightarrow> ?op a = (r, b) \<Longrightarrow> sameDocuments s b"
    by (auto dest!: getDocs_store intro: sameDocuments_trans)
  from executeWithRetry_invariant [where I = "sameDocuments s", OF step _ run]
  have same: "sameDocuments s s'"
    and res: "\<forall>x. r0 = Resolved x \<longrightarrow> (\<exists>s1. sameDocuments s s1 \<and> ?op s1 = (Resolved x, s'))"
    by simp_all
  have "r0 = Resolved x \<Longrightarrow> x = following s userId" for x
  proof -
    assume "r0 = Resolved x"
    with res obtain s1 where "sameDocuments s s1" "?op s1 = (Resolved x, s')"
      by blast
    then show ?thesis
      by (auto simp: getDocs_Resolved sameDocuments_fields)
  qed
  moreover have "cs = connected \<Longrightarrow> r0 \<noteq> Pending"
    using executeWithRetry_not_Pending [of ?op s] run getDocs_not_Pending by auto
  ultimately show ?thesis
    using same r by (cases r0) auto
qed

lemma concertActivities_result:
  "concertActivities docs s = (r, s') \<Longrightarrow>
     sameDocuments s s' \<and> r \<noteq> Pending \<and>
     (\<forall>items. r = Resolved items \<longrightarrow>
        (\<forall>item \<in> set items. \<exists>k d n. (k, d) \<in> set docs \<and> item = concertActivity k d n))"
proof (induction docs arbitrary: s r s')
  case Nil
  then show ?case by auto
next
  case (Cons kd docs)
  obtain k d where kd: "kd = (k, d)" by (cases kd)
  obtain r1 s1 where g: "getDocs (userAt (concert_userRef d)) s = (r1, s1)"
    by (cases "getDocs (userAt (concert_userRef d)) s")
  then have s1: "sameDocuments s s1" and np: "r1 \<noteq> Pending"
    using getDocs_store [OF g] getDocs_not_Pending [of "userAt (concert_userRef d)" s] by auto
  show ?case
  proof (cases r1)
    case Pending
    with np show ?thesis by simp
  next
    case (Rejected e)
    with Cons.prems kd g s1 show ?thesis by auto
  next
    case (Resolved userDoc)
    obtain r2 s2 where rest: "concertActivities docs s1 = (r2, s2)"
      by (cases "concertActivities docs s1")
    from Cons.IH [OF rest] have ih: "sameDocuments s1 s2" "r2 \<noteq> Pending"
      "\<forall>items. r2 = Resolved items \<longrightarrow>
        (\<forall>item \<in> set items. \<exists>k d n. (k, d) \<in> set docs \<and> item = concertActivity k d n)"
      by simp_all
    from s1 ih(1) have "sameDocuments s s2" by (rule sameDocuments_trans)
    with Cons.prems kd g Resolved rest ih(2,3) show ?thesis
      by (cases r2) (fastforce split: prod.splits)+
  qed
qed

lemma reviewActivities_result:
  "reviewActivities docs s = (r, s') \<Longrightarrow>
     sameDocuments s s' \<and> r \<noteq> Pending \<and>
     (\<forall>items. r = Resolved items \<longrightarrow> (\<forall>item \<in> set items. item_type item = review_posted))"
proof (induction docs arbitrary: s r s')
  case Nil
  then show ?case by auto
next
  case (Cons kd docs)
  obtain k d where kd: "kd = (k, d)" by (cases kd)
  obtain r1 s1 where g1: "getDocs (userAt (review_userRef d)) s = (r1, s1)"
    by (cases "getDocs (userAt (review_userRef d)) s")
  then have s1: "sameDocuments s s1" and np1: "r1 \<noteq> Pending"
    using getDocs_store [OF g1] getDocs_not_Pending [of "userAt (review_userRef d)" s] by auto
  show ?case
  proof (cases r1)
    case Pending
    with np1 show ?thesis by simp
  next
    case (Rejected e)
    with Cons.prems kd g1 s1 show ?thesis by auto
  next
    case r1: (Resolved userDoc)
    obtain r2 s2 where g2: "getDocs (concertAt (review_concertRef d)) s1 = (r2, s2)"
      by (cases "getDocs (concertAt (review_concertRef d)) s1")
    then have "sameDocuments s1 s2" and np2: "r2 \<noteq> Pending"
      using getDocs_store [OF g2] getDocs_not_Pending [of "concertAt (review_concertRef d)" s1]
      by auto
    with s1 have s2: "sameDocuments s s2" by (blast intro: sameDocuments_trans)
    show ?thesis
    proof (cases r2)
      case Pending
      with np2 show ?thesis by simp
    next
      case (Rejected e)
      with Cons.prems kd g1 r1 g2 s2 show ?thesis by auto
    next
      case r2: (Resolved concertDoc)
      obtain r3 s3 where rest: "reviewActivities docs s2 = (r3, s3)"
        by (cases "reviewActivities docs s2")
      from Cons.IH [OF rest] have ih: "sameDocuments s2 s3" "r3 \<noteq> Pending"
        "\<forall>items. r3 = Resolved items \<longrightarrow> (\<forall>item \<in> set items. item_type item = review_posted)"
        by simp_all
      from s2 ih(1) have "sameDocuments s s3" by (rule sameDocuments_trans)
      with Cons.prems kd g1 r1 g2 r2 rest ih(2,3) show ?thesis
        by (cases r3) (auto simp: reviewActivity_def Let_def)
    qed
  qed
qed

lemma mostRecentFirst_sorted:
  "sorted_wrt (\<lambda>a b. item_timestamp b \<le> item_timestamp a) (mostRecentFirst activities)"
proof -
  have "sorted (map (\<lambda>a. - item_timestamp a) (mostRecentFirst activities))"
    unfolding mostRecentFirst_def by (rule sorted_sort_key)
  then show ?thesis
    by (simp add: sorted_wrt_map)
qed

lemma set_mostRecentFirst [simp]: "set (mostRecentFirst activities) = set activities"
  by (simp add: mostRecentFirst_def)

lemma recentConcerts_subset: "set (recentConcerts refs s) \<subseteq> set (concerts s)"
  unfolding recentConcerts_def by (auto dest: in_set_takeD)

lemma getFeedActivities_operation_result:
  assumes "getFeedActivities_operation cs userId s = (r, s')"
  shows "sameDocuments s s' \<and> (cs = connected \<longrightarrow> r \<noteq> Pending) \<and>
         (following s userId = [] \<longrightarrow> r = Resolved [] \<or> r = Pending) \<and>
         (\<forall>items. r = Resolved items \<longrightarrow>
            length items \<le> 30 \<and>
            sorted_wrt (\<lambda>a b. item_timestamp b \<le> item_timestamp a) items \<and>
            (\<forall>item \<in> set items. item_type item = concert_logged \<longrightarrow>
               (\<exists>k d n. (k, d) \<in> set (concerts s) \<and> item = concertActivity k d n)))"
proof -
  obtain r0 s0 where f: "getFollowingUsers cs userId s = (r0, s0)"
    by (cases "getFollowingUsers cs userId s")
  note fr = getFollowingUsers_result [OF f]
  show ?thesis
  proof (cases r0)
    case Pending
    with f fr assms show ?thesis
      by (auto simp: getFeedActivities_operation_def)
  next
    case (Rejected e)
    with fr show ?thesis by simp
  next
    case ids: (Resolved followingUserIds)
    show ?thesis
    proof (cases "followingUserIds = []")
      case True
      with f ids fr assms show ?thesis
        by (auto simp: getFeedActivities_operation_def)
    next
      case False
      with fr ids have nonempty: "following s userId \<noteq> []" by auto
      let ?refs = "map (\<lambda>k. ''users/'' @ k) followingUserIds"
      obtain r1 s1 where g1: "getDocs (recentConcerts ?refs) s0 = (r1, s1)"
        by (cases "getDocs (recentConcerts ?refs) s0")
      have s1: "sameDocuments s s1" and np1: "r1 \<noteq> Pending"
        using getDocs_store [OF g1] getDocs_not_Pending [of "recentConcerts ?refs" s0] g1 fr
        by (auto intro: sameDocuments_trans)
      have run1:
        "(r, s') = await (r1, s1) (\<lambda>concertsSnapshot s.
          await (concertActivities concertsSnapshot s) (\<lambda>fromConcerts s.
          await (getDocs (recentReviews ?refs) s) (\<lambda>reviewsSnapshot s.
          await (reviewActivities reviewsSnapshot s) (\<lambda>fromReviews s.
            (Resolved (take 30 (mostRecentFirst (fromConcerts @ fromReviews))), s)))))"
        unfolding assms [symmetric] getFeedActivities_operation_def f ids await_simps Let_def
          length_0_conv if_not_P [OF False] g1
        by (rule refl)
      show ?thesis
      proof (cases r1)
        case Pending
        with np1 show ?thesis by simp
      next
        case (Rejected e)
        with run1 s1 nonempty show ?thesis by simp
      next
        case snap: (Resolved concertsSnapshot)
        with g1 have snapshot: "set concertsSnapshot \<subseteq> set (concerts s)"
          using recentConcerts_subset [of ?refs "afterRequest s0"] fr
          by (auto simp: getDocs_Resolved sameDocuments_fields)
        obtain r2 s2 where g2: "concertActivities concertsSnapshot s1 = (r2, s2)"
          by (cases "concertActivities concertsSnapshot s1")
        note c = concertActivities_result [OF g2]
        from c s1 have s2: "sameDocuments s s2" by (blast intro: sameDocuments_trans)
        show ?thesis
        proof (cases r2)
          case Pending
          with c show ?thesis by simp
        next
          case (Rejected e)
          with run1 snap g2 s2 nonempty show ?thesis by simp
        next
          case fromC: (Resolved fromConcerts)
          obtain r3 s3 where g3: "getDocs (recentReviews ?refs) s2 = (r3, s3)"
            by (cases "getDocs (recentReviews ?refs) s2")
          have s3: "sameDocuments s s3" and np3: "r3 \<noteq> Pending"
            using getDocs_store [OF g3] getDocs_not_Pending [of "recentReviews ?refs" s2] g3 s2
            by (auto intro: sameDocuments_trans)
          show ?thesis
          proof (cases r3)
            case Pending
            with np3 show ?thesis by simp
          next
            case (Rejected e)
            with run1 snap g2 fromC g3 s3 nonempty show ?thesis by simp
          next
            case rsnap: (Resolved reviewsSnapshot)
            obtain r4 s4 where g4: "reviewActivities reviewsSnapshot s3 = (r4, s4)"
              by (cases "reviewActivities reviewsSnapshot s3")
            note rv = reviewActivities_result [OF g4]
            from rv s3 have s4: "sameDocuments s s4" by (blast intro: sameDocuments_trans)
            show ?thesis
            proof (cases r4)
              case Pending
              with rv show ?thesis by simp
            next
              case (Rejected e)
              with run1 snap g2 fromC g3 rsnap g4 s4 nonempty show ?thesis by simp
            next
              case fromR: (Resolved fromReviews)
              from run1 snap g2 fromC g3 rsnap g4 fromR
              have r: "r = Resolved (take 30 (mostRecentFirst (fromConcerts @ fromReviews)))"
                and "s' = s4"
                by simp_all
              have "\<exists>k d n. (k, d) \<in> set (concerts s) \<and> item = concertActivity k d n"
                if "item \<in> set (take 30 (mostRecentFirst (fromConcerts @ fromReviews)))"
                  and "item_type item = concert_logged" for item
              proof -
                from that(1) have "item \<in> set fromConcerts \<or> item \<in> set fromReviews"
                  by (auto dest: in_set_takeD)
                with that(2) rv fromR have "item \<in> set fromConcerts" by auto
                with c fromC snapshot show ?thesis by blast
              qed
              with r \<open>s' = s4\<close> s4 nonempty show ?thesis
                by (auto simp: mostRecentFirst_sorted)
            qed
          qed
        qed
      qed
    qed
  qed
qed

lemma getFeedActivities_operation_not_Pending:
  "fst (getFeedActivities_operation connected userId s) \<noteq> Pending"
  using getFeedActivities_operation_result [of connected userId s]
  by (cases "getFeedActivities_operation connected userId s") auto

lemma getFollowingUsers_no_faults:
  "faults s = [] \<Longrightarrow> getFollowingUsers connected userId s = (Resolved (following s userId), s)"
  by (simp add: getFollowingUsers_def catchDefault_def
      executeWithRetry_resolves [OF getDocs_no_faults])

lemma concertActivities_no_faults:
  "faults s = [] \<Longrightarrow>
     concertActivities docs s
       = (Resolved (map (\<lambda>(k, d). concertActivity k d
                           (displayNameOf (userAt (concert_userRef d) s))) docs), s)"
  by (induction docs) (auto simp: getDocs_no_faults)

lemma reviewActivities_no_faults:
  "faults s = [] \<Longrightarrow>
     reviewActivities docs s
       = (Resolved (map (\<lambda>(k, d). reviewActivity k d
                           (displayNameOf (userAt (review_userRef d) s))
                           (concertAt (review_concertRef d) s)) docs), s)"
  by (induction docs) (auto simp: getDocs_no_faults)

lemma getFeedActivities_no_faults:
  assumes "faults s = []"
  shows "getFeedActivities connected userId s
     = (Resolved
          (if following s userId = [] then []
           else take 30 (mostRecentFirst
             (map (\<lambda>(k, d). concertActivity k d (displayNameOf (userAt (concert_userRef d) s)))
                (recentConcerts (map (\<lambda>k. ''users/'' @ k) (following s userId)) s)
              @ map (\<lambda>(k, d). reviewActivity k d (displayNameOf (userAt (review_userRef d) s))
                              (concertAt (review_concertRef d) s))
                (recentReviews (map (\<lambda>k. ''users/'' @ k) (following s userId)) s)))),
        s)"
proof -
  have "getFeedActivities_operation connected userId s
     = (Resolved
          (if following s userId = [] then []
           else take 30 (mostRecentFirst
             (map (\<lambda>(k, d). concertActivity k d (displayNameOf (userAt (concert_userRef d) s)))
                (recentConcerts (map (\<lambda>k. ''users/'' @ k) (following s userId)) s)
              @ map (\<lambda>(k, d). reviewActivity k d (displayNameOf (userAt (review_userRef d) s))
                              (concertAt (review_concertRef d) s))
                (recentReviews (map (\<lambda>k. ''users/'' @ k) (following s userId)) s)))),
        s)"
    unfolding getFeedActivities_operation_def getFollowingUsers_no_faults [OF assms]
    by (simp add: getDocs_no_faults concertActivities_no_faults reviewActivities_no_faults assms
        Let_def)
  then show ?thesis
    by (simp add: getFeedActivities_def catchDefault_def executeWithRetry_resolves)
qed

lemma following_store_feed:
  "getFeedActivities connected ''b'' following_store
     = (Resolved
          [\<lparr>item_id = ''review_r1'', item_type = review_posted, item_userId = ''ab'',
            item_userDisplayName = ''ann'', item_concertId = ''c1'',
            item_concertName = ''Unknown Artist at Unknown Venue'',
            item_artistName = ''Unknown Artist'', item_venueName = ''Unknown Venue'',
            item_reviewId = Some ''r1'', item_timestamp = 20\<rparr>,
           \<lparr>item_id = ''concert_c1'', item_type = concert_logged, item_userId = ''ab'',
            item_userDisplayName = ''ann'', item_concertId = ''c1'',
            item_concertName = ''undefined at undefined'',
            item_artistName = ''Unknown Artist'', item_venueName = ''Unknown Venue'',
            item_reviewId = None, item_timestamp = 10\<rparr>],
        following_store)"
proof -
  have f: "faults following_store = []"
    by (simp add: following_store_def example_store_def)
  show ?thesis
    unfolding getFeedActivities_no_faults [OF f]
    by (simp add: following_store_def example_store_def recentConcerts_def recentReviews_def
        userAt_def concertAt_def displayNameOf_def orElse_def interpolated_def
        concertActivity_def reviewActivity_def lastSegment_def mostRecentFirst_def Let_def)
qed

lemma getFeedActivities_resolves:
  "(\<exists>items s'. getFeedActivities connected userId s = (Resolved items, s') \<and>
      length items \<le> 30 \<and>
      sorted_wrt (\<lambda>a b. item_timestamp b \<le> item_timestamp a) items)
   \<and> (following s userId = [] \<longrightarrow> fst (getFeedActivities connected userId s) = Resolved [])
   \<and> (\<forall>e s'. executeWithRetry connected (getFeedActivities_operation connected userId) s
                 = (Rejected e, s') \<longrightarrow>
        getFeedActivities connected userId s = (Resolved [], s'))"
proof -
  let ?op = "getFeedActivities_operation connected userId"
  obtain r0 s' where run: "executeWithRetry connected ?op s = (r0, s')"
    by (cases "executeWithRetry connected ?op s")
  have step: "\<And>a r b. sameDocuments s a \<Longrightarrow> ?op a = (r, b) \<Longrightarrow> sameDocuments s b"
    using getFeedActivities_operation_result by (blast intro: sameDocuments_trans)
  from executeWithRetry_invariant [where I = "sameDocuments s", OF step _ run]
  have res: "\<forall>x. r0 = Resolved x \<longrightarrow> (\<exists>s1. sameDocuments s s1 \<and> ?op s1 = (Resolved x, s'))"
    by simp
  have np: "r0 \<noteq> Pending"
    using executeWithRetry_not_Pending [of ?op s] getFeedActivities_operation_not_Pending run
    by auto
  have good: "length x \<le> 30 \<and> sorted_wrt (\<lambda>a b. item_timestamp b \<le> item_timestamp a) x \<and>
              (following s userId = [] \<longrightarrow> x = [])" if "r0 = Resolved x" for x
  proof -
    from that res obtain s1 where s1: "sameDocuments s s1" "?op s1 = (Resolved x, s')"
      by blast
    from getFeedActivities_operation_result [OF s1(2)] sameDocuments_fields(4) [OF s1(1)]
    show ?thesis by auto
  qed
  show ?thesis
  proof (cases r0)
    case Pending
    with np show ?thesis by simp
  next
    case (Rejected e)
    with run show ?thesis
      by (simp add: getFeedActivities_def catchDefault_def)
  next
    case (Resolved x)
    with run good [OF Resolved] show ?thesis
      by (simp add: getFeedActivities_def catchDefault_def)
  qed
qed

subsection \<open>Requests of the feed that fail\<close>

lemma errorsOf_append [simp]: "errorsOf (xs @ ys) = errorsOf xs @ errorsOf ys"
  by (induction xs rule: errorsOf.induct) simp_all

lemma failedRequests_answers:
  "faults s = answers @ faults s' \<Longrightarrow> failedRequests s s' = errorsOf answers"
  by (simp add: failedRequests_def)

lemma runsUntilFailure_Resolved [simp]: "runsUntilFailure s (Resolved x) s"
  by (simp add: runsUntilFailure_def)

lemma runsUntilFailure_trans:
  "runsUntilFailure s (Resolved a) s1 \<Longrightarrow> runsUntilFailure s1 r s2 \<Longrightarrow> runsUntilFailure s r s2"
  unfolding runsUntilFailure_def
proof (elim exE conjE)
  fix xs ys
  assume "faults s = xs @ faults s1" "faults s1 = ys @ faults s2"
    and "case Resolved a of Resolved x \<Rightarrow> errorsOf xs = [] | Rejected e \<Rightarrow> errorsOf xs = [e]
           | Pending \<Rightarrow> False"
    and r: "case r of Resolved x \<Rightarrow> errorsOf ys = [] | Rejected e \<Rightarrow> errorsOf ys = [e]
           | Pending \<Rightarrow> False"
  then have "faults s = (xs @ ys) @ faults s2" and "errorsOf (xs @ ys) = errorsOf ys"
    by simp_all
  with r show "\<exists>answers. faults s = answers @ faults s2 \<and>
        (case r of Resolved x \<Rightarrow> errorsOf answers = [] | Rejected e \<Rightarrow> errorsOf answers = [e]
         | Pending \<Rightarrow> False)"
    by (intro exI [of _ "xs @ ys"]) (cases r; simp)
qed

lemma runsUntilFailure_Rejected:
  "runsUntilFailure s (Rejected e :: 'a outcome) s' \<Longrightarrow>
     runsUntilFailure s (Rejected e :: 'b outcome) s'"
  by (simp add: runsUntilFailure_def)

lemma getDocs_runs:
  assumes "getDocs q s = (r, s')"
  shows "runsUntilFailure s r s'"
proof (cases "faults s")
  case Nil
  with assms show ?thesis
    by (auto simp: getDocs_def backend_def answer_def runsUntilFailure_def)
next
  case (Cons a rest)
  show ?thesis
  proof (cases a)
    case None
    with Cons assms have "r = Resolved (q (s\<lparr>faults := rest\<rparr>))" "faults s = [None] @ faults s'"
      by (auto simp: getDocs_def backend_def answer_def)
    then show ?thesis
      unfolding runsUntilFailure_def by (intro exI [of _ "[None]"]) simp
  next
    case (Some e)
    with Cons assms have "r = Rejected e" "faults s = [Some e] @ faults s'"
      by (auto simp: getDocs_def backend_def)
    then show ?thesis
      unfolding runsUntilFailure_def by (intro exI [of _ "[Some e]"]) simp
  qed
qed

lemma await_runs:
  assumes "runsUntilFailure s (fst m) (snd m)"
    and "\<And>a. fst m = Resolved a \<Longrightarrow> runsUntilFailure (snd m) (fst (k a (snd m))) (snd (k a (snd m)))"
  shows "runsUntilFailure s (fst (await m k)) (snd (await m k))"
proof (cases m)
  case (Pair r1 s1)
  show ?thesis
  proof (cases r1)
    case (Resolved a)
    with Pair assms show ?thesis
      by (auto intro: runsUntilFailure_trans)
  next
    case (Rejected e)
    with Pair assms(1) show ?thesis by (auto intro: runsUntilFailure_Rejected)
  next
    case Pending
    with Pair assms(1) show ?thesis by (simp add: runsUntilFailure_def)
  qed
qed

lemma concertActivities_runs:
  "runsUntilFailure s (fst (concertActivities docs s)) (snd (concertActivities docs s))"
proof (induction docs arbitrary: s)
  case Nil
  show ?case by simp
next
  case (Cons kd docs)
  obtain k d where kd: "kd = (k, d)" by (cases kd)
  obtain r1 s1 where g: "getDocs (userAt (concert_userRef d)) s = (r1, s1)"
    by (cases "getDocs (userAt (concert_userRef d)) s")
  note g1 = getDocs_runs [OF g]
  show ?case
  proof (cases r1)
    case Pending
    with g1 show ?thesis by (simp add: runsUntilFailure_def)
  next
    case (Rejected e)
    with g g1 kd show ?thesis by (auto intro: runsUntilFailure_Rejected)
  next
    case (Resolved userDoc)
    obtain r2 s2 where rest: "concertActivities docs s1 = (r2, s2)"
      by (cases "concertActivities docs s1")
    from Cons.IH [of s1] rest have "runsUntilFailure s1 r2 s2" by simp
    with g1 Resolved have r2: "runsUntilFailure s r2 s2"
      by (blast intro: runsUntilFailure_trans)
    then show ?thesis
      using g kd Resolved rest by (cases r2) (simp_all add: runsUntilFailure_def)
  qed
qed

lemma reviewActivities_runs:
  "runsUntilFailure s (fst (reviewActivities docs s)) (snd (reviewActivities docs s))"
proof (induction docs arbitrary: s)
  case Nil
  show ?case by simp
next
  case (Cons kd docs)
  obtain k d where kd: "kd = (k, d)" by (cases kd)
  obtain r1 s1 where g: "getDocs (userAt (review_userRef d)) s = (r1, s1)"
    by (cases "getDocs (userAt (review_userRef d)) s")
  note g1 = getDocs_runs [OF g]
  show ?case
  proof (cases r1)
    case Pending
    with g1 show ?thesis by (simp add: runsUntilFailure_def)
  next
    case (Rejected e)
    with g g1 kd show ?thesis by (auto intro: runsUntilFailure_Rejected)
  next
    case r1: (Resolved userDoc)
    obtain r2 s2 where g': "getDocs (concertAt (review_concertRef d)) s1 = (r2, s2)"
      by (cases "getDocs (concertAt (review_concertRef d)) s1")
    from getDocs_runs [OF g'] g1 r1 have g2: "runsUntilFailure s r2 s2"
      by (blast intro: runsUntilFailure_trans)
    show ?thesis
    proof (cases r2)
      case Pending
      with g2 show ?thesis by (simp add: runsUntilFailure_def)
    next
      case (Rejected e)
      with g r1 g' g2 kd show ?thesis by (auto intro: runsUntilFailure_Rejected)
    next
      case r2: (Resolved concertDoc)
      obtain r3 s3 where rest: "reviewActivities docs s2 = (r3, s3)"
        by (cases "reviewActivities docs s2")
      from Cons.IH [of s2] rest have "runsUntilFailure s2 r3 s3" by simp
      with g2 r2 have r3: "runsUntilFailure s r3 s3"
        by (blast intro: runsUntilFailure_trans)
      then show ?thesis
        using g kd r1 g' r2 rest by (cases r3) (simp_all add: runsUntilFailure_def)
    qed
  qed
qed

lemma runsUntilFailure_suffix:
  "runsUntilFailure s r s' \<Longrightarrow> suffix (faults s') (faults s)"
  by (auto simp: runsUntilFailure_def suffix_def)

lemma getDocs_runs':
  "runsUntilFailure s (fst (getDocs q s)) (snd (getDocs q s))"
  by (rule getDocs_runs) simp

text \<open>What \<open>runsUntilFailure\<close> says of a value and of a rejection.\<close>

lemma runsUntilFailure_cases:
  assumes "runsUntilFailure s r s'"
  obtains (answered) x answers where "r = Resolved x" "faults s = answers @ faults s'"
      "errorsOf answers = []"
    | (failed) e answers where "r = Rejected e" "faults s = answers @ faults s'"
      "errorsOf answers = [e]"
  using assms by (cases r) (auto simp: runsUntilFailure_def)

lemma getFollowingUsers_last_failure:
  assumes "getFollowingUsers connected userId s = (r, s')"
  shows "\<exists>ids answers. r = Resolved ids \<and> faults s = answers @ faults s' \<and>
           (errorsOf answers = [] \<or> ids = [] \<or> isNetworkError (last (errorsOf answers)))"
proof -
  let ?op = "getDocs (\<lambda>s. following s userId)"
  obtain r0 s0 where run: "executeWithRetry connected ?op s = (r0, s0)"
    by (cases "executeWithRetry connected ?op s")
  with assms have r: "r = (case r0 of Rejected e \<Rightarrow> Resolved [] | other \<Rightarrow> other)"
    and s': "s' = s0"
    by (auto simp: getFollowingUsers_def catchDefault_def split: outcome.splits)
  have suffix: "\<exists>answers. faults s = answers @ faults s0"
    using executeWithRetry_invariant [where I = "\<lambda>t. suffix (faults t) (faults s)" and s = s
        and operation = ?op and cs = connected and r = r0 and s' = s0]
      run getDocs_runs runsUntilFailure_suffix
    by (metis suffix_def suffix_order.refl suffix_order.trans)
  show ?thesis
  proof (cases r0)
    case Pending
    with run executeWithRetry_not_Pending [of ?op s] getDocs_not_Pending show ?thesis
      by (metis fst_conv)
  next
    case (Rejected e)
    with r s' suffix show ?thesis by auto
  next
    case (Resolved ids)
    with r have ids: "r = Resolved ids" by simp
    from executeWithRetry_attempts [OF run] show ?thesis
    proof (elim disjE exE conjE)
      assume "?op s = (r0, s0)"
      from getDocs_runs [OF this] Resolved ids s' show ?thesis
        by (auto simp: runsUntilFailure_def)
    next
      fix e1 s1
      assume 1: "?op s = (Rejected e1, s1)" and net: "isNetworkError e1"
        and 2: "?op s1 = (r0, s0)"
      from getDocs_runs [OF 1] obtain xs1 where
        xs1: "faults s = xs1 @ faults s1" "errorsOf xs1 = [e1]"
        by (auto simp: runsUntilFailure_def)
      from getDocs_runs [OF 2] Resolved obtain xs2 where
        xs2: "faults s1 = xs2 @ faults s0" "errorsOf xs2 = []"
        by (auto simp: runsUntilFailure_def)
      from xs1 xs2 s' have "faults s = (xs1 @ xs2) @ faults s'" "errorsOf (xs1 @ xs2) = [e1]"
        by simp_all
      with net ids show ?thesis
        by (metis last.simps)
    next
      fix e1 s1 e2 s2
      assume 1: "?op s = (Rejected e1, s1)"
        and 2: "?op s1 = (Rejected e2, s2)" and net: "isNetworkError e2"
        and 3: "?op s2 = (r0, s0)"
      from getDocs_runs [OF 1] obtain xs1 where
        xs1: "faults s = xs1 @ faults s1" "errorsOf xs1 = [e1]"
        by (auto simp: runsUntilFailure_def)
      from getDocs_runs [OF 2] obtain xs2 where
        xs2: "faults s1 = xs2 @ faults s2" "errorsOf xs2 = [e2]"
        by (auto simp: runsUntilFailure_def)
      from getDocs_runs [OF 3] Resolved obtain xs3 where
        xs3: "faults s2 = xs3 @ faults s0" "errorsOf xs3 = []"
        by (auto simp: runsUntilFailure_def)
      from xs1 xs2 xs3 s' have "faults s = (xs1 @ xs2 @ xs3) @ faults s'"
        "errorsOf (xs1 @ xs2 @ xs3) = [e1, e2]"
        by simp_all
      with net ids show ?thesis
        by (metis last.simps list.distinct(1))
    qed
  qed
qed

lemma getFeedActivities_operation_last_failure:
  assumes "getFeedActivities_operation connected userId s = (r, s')"
  shows "\<exists>answers. faults s = answers @ faults s' \<and>
           (\<forall>e. r = Rejected e \<longrightarrow> errorsOf answers \<noteq> [] \<and> last (errorsOf answers) = e) \<and>
           (\<forall>items. r = Resolved items \<longrightarrow>
              errorsOf answers = [] \<or> items = [] \<or> isNetworkError (last (errorsOf answers)))"
proof -
  obtain r0 s0 where f: "getFollowingUsers connected userId s = (r0, s0)"
    by (cases "getFollowingUsers connected userId s")
  from getFollowingUsers_last_failure [OF f] obtain ids answers where
    ids: "r0 = Resolved ids" and a: "faults s = answers @ faults s0"
    and e: "errorsOf answers = [] \<or> ids = [] \<or> isNetworkError (last (errorsOf answers))"
    by blast
  show ?thesis
  proof (cases "ids = []")
    case True
    with assms f ids have "r = Resolved []" "s' = s0"
      by (simp_all add: getFeedActivities_operation_def)
    with a show ?thesis by blast
  next
    case False
    let ?refs = "map (\<lambda>k. ''users/'' @ k) ids"
    let ?body = "await (getDocs (recentConcerts ?refs) s0) (\<lambda>concertsSnapshot s.
          await (concertActivities concertsSnapshot s) (\<lambda>fromConcerts s.
          await (getDocs (recentReviews ?refs) s) (\<lambda>reviewsSnapshot s.
          await (reviewActivities reviewsSnapshot s) (\<lambda>fromReviews s.
            (Resolved (take 30 (mostRecentFirst (fromConcerts @ fromReviews))), s)))))"
    have run: "(r, s') = ?body"
      unfolding assms [symmetric] getFeedActivities_operation_def f ids await_simps Let_def
        length_0_conv if_not_P [OF False]
      by (rule refl)
    have "runsUntilFailure s0 (fst ?body) (snd ?body)"
      by (rule await_runs getDocs_runs' concertActivities_runs reviewActivities_runs | simp)+
    with run [symmetric] have "runsUntilFailure s0 r s'"
      by simp
    then show ?thesis
    proof (cases rule: runsUntilFailure_cases)
      case (answered x ys)
      with a have "faults s = (answers @ ys) @ faults s'" "errorsOf (answers @ ys) = errorsOf answers"
        by simp_all
      with answered(1) e False show ?thesis
        by (intro exI [of _ "answers @ ys"]) auto
    next
      case (failed e ys)
      with a have "faults s = (answers @ ys) @ faults s'"
        "errorsOf (answers @ ys) = errorsOf answers @ [e]"
        by simp_all
      with failed(1) show ?thesis
        by (intro exI [of _ "answers @ ys"]) simp
    qed
  qed
qed

lemma last_failure_after:
  assumes "errorsOf xs \<noteq> []" and "isNetworkError (last (errorsOf xs))"
    and "errorsOf ys = [] \<or> nothing \<or> isNetworkError (last (errorsOf ys))"
  shows "errorsOf (xs @ ys) \<noteq> [] \<and> (nothing \<or> isNetworkError (last (errorsOf (xs @ ys))))"
  using assms by (cases "errorsOf ys = []") auto

lemma getFeedActivities_last_failure:
  assumes run: "getFeedActivities connected userId s = (r, s')"
    and failed: "failedRequests s s' \<noteq> []"
    and lastly: "\<not> isNetworkError (last (failedRequests s s'))"
  shows "r = Resolved []"
proof -
  let ?op = "getFeedActivities_operation connected userId"
  obtain r0 s0 where wrapped: "executeWithRetry connected ?op s = (r0, s0)"
    by (cases "executeWithRetry connected ?op s")
  with run have r: "r = (case r0 of Rejected e \<Rightarrow> Resolved [] | other \<Rightarrow> other)"
    and s': "s' = s0"
    by (auto simp: getFeedActivities_def catchDefault_def split: outcome.splits)
  show ?thesis
  proof (cases r0)
    case Pending
    with wrapped executeWithRetry_not_Pending [of ?op s] getFeedActivities_operation_not_Pending
    show ?thesis
      by (metis fst_conv)
  next
    case (Rejected e)
    with r show ?thesis by simp
  next
    case (Resolved items)
    with r have items: "r = Resolved items" by simp
    have "items = []"
      if "faults s = answers @ faults s'"
        and "errorsOf answers = [] \<or> items = [] \<or> isNetworkError (last (errorsOf answers))"
      for answers
      using that failed lastly by (auto simp: failedRequests_answers)
    note empty_feed = this
    from executeWithRetry_attempts [OF wrapped] show ?thesis
    proof (elim disjE exE conjE)
      assume "?op s = (r0, s0)"
      from getFeedActivities_operation_last_failure [OF this] Resolved s' items empty_feed
      show ?thesis by blast
    next
      fix e1 s1
      assume 1: "?op s = (Rejected e1, s1)" and net: "isNetworkError e1"
        and 2: "?op s1 = (r0, s0)"
      from getFeedActivities_operation_last_failure [OF 1] net obtain xs where
        xs: "faults s = xs @ faults s1" "errorsOf xs \<noteq> []" "isNetworkError (last (errorsOf xs))"
        by auto
      from getFeedActivities_operation_last_failure [OF 2] Resolved obtain ys where
        ys: "faults s1 = ys @ faults s0"
        "errorsOf ys = [] \<or> items = [] \<or> isNetworkError (last (errorsOf ys))"
        by auto
      from xs(1) ys(1) s' have "faults s = (xs @ ys) @ faults s'"
        by simp
      from failedRequests_answers [OF this] last_failure_after [OF xs(2,3) ys(2)] lastly items
      show ?thesis by auto
    next
      fix e1 s1 e2 s2
      assume 1: "?op s = (Rejected e1, s1)"
        and 2: "?op s1 = (Rejected e2, s2)" and net: "isNetworkError e2"
        and 3: "?op s2 = (r0, s0)"
      from getFeedActivities_operation_last_failure [OF 1] obtain xs1 where
        xs1: "faults s = xs1 @ faults s1"
        by auto
      from getFeedActivities_operation_last_failure [OF 2] net obtain xs2 where
        xs2: "faults s1 = xs2 @ faults s2" "errorsOf xs2 \<noteq> []"
        "isNetworkError (last (errorsOf xs2))"
        by auto
      from getFeedActivities_operation_last_failure [OF 3] Resolved obtain ys where
        ys: "faults s2 = ys @ faults s0"
        "errorsOf ys = [] \<or> items = [] \<or> isNetworkError (last (errorsOf ys))"
        by auto
      from xs2(2,3) have both: "errorsOf (xs1 @ xs2) \<noteq> []"
        "isNetworkError (last (errorsOf (xs1 @ xs2)))"
        by simp_all
      from xs1 xs2(1) ys(1) s' have "faults s = ((xs1 @ xs2) @ ys) @ faults s'"
        by simp
      from failedRequests_answers [OF this] last_failure_after [OF both ys(2)] lastly items
      show ?thesis by auto
    qed
  qed
qed

lemma getFeedActivities_operation_rejects_with_last:
  assumes "getFeedActivities_operation connected userId s = (Rejected e, s')"
  shows "failedRequests s s' \<noteq> [] \<and> last (failedRequests s s') = e"
  using getFeedActivities_operation_last_failure [OF assms]
  by (auto simp: failedRequests_answers)

lemma getFeedActivities_operation_no_faults:
  assumes "faults s = []"
  shows "\<exists>items. getFeedActivities_operation connected userId s = (Resolved items, s)"
  unfolding getFeedActivities_operation_def getFollowingUsers_no_faults [OF assms]
  by (simp add: getDocs_no_faults concertActivities_no_faults reviewActivities_no_faults assms
      Let_def)

lemma concerts_query_fails:
  assumes "faults s = None # Some e # rest" and "following s userId \<noteq> []"
  shows "getFeedActivities_operation connected userId s = (Rejected e, s\<lparr>faults := rest\<rparr>)"
proof -
  have "getDocs (\<lambda>s. following s userId) s
          = (Resolved (following s userId), s\<lparr>faults := Some e # rest\<rparr>)"
    by (simp add: getDocs_def backend_def answer_def assms)
  then have "getFollowingUsers connected userId s
          = (Resolved (following s userId), s\<lparr>faults := Some e # rest\<rparr>)"
    by (simp add: getFollowingUsers_def catchDefault_def executeWithRetry_resolves)
  then show ?thesis
    unfolding getFeedActivities_operation_def
    by (simp add: getDocs_rejected assms(2))
qed

lemma getFeedActivities_retried:
  assumes "faults s = [None, Some e]" and "isNetworkError e" and "following s userId \<noteq> []"
  shows "getFeedActivities connected userId s
           = getFeedActivities connected userId (s\<lparr>faults := []\<rparr>)"
proof -
  let ?op = "getFeedActivities_operation connected userId"
  from concerts_query_fails [OF assms(1,3)]
  have first: "?op s = (Rejected e, s\<lparr>faults := []\<rparr>)" .
  from getFeedActivities_operation_no_faults [of "s\<lparr>faults := []\<rparr>" userId]
  obtain items where second: "?op (s\<lparr>faults := []\<rparr>) = (Resolved items, s\<lparr>faults := []\<rparr>)"
    by auto
  from executeWithRetry_second_attempt [where operation = ?op, OF first assms(2) second]
    executeWithRetry_resolves [where operation = ?op, OF second]
  show ?thesis
    by (simp add: getFeedActivities_def)
qed

lemma getFeedActivities_three_attempts:
  assumes "getFeedActivities_operation connected userId s = (Rejected e1, s1)"
    and "isNetworkError e1"
    and "getFeedActivities_operation connected userId s1 = (Rejected e2, s2)"
    and "isNetworkError e2"
    and "getFeedActivities_operation connected userId s2 = (Rejected e3, s3)"
  shows "getFeedActivities connected userId s = (Resolved [], s3)"
  using executeWithRetry_third_attempt
    [where operation = "getFeedActivities_operation connected userId", OF assms]
  by (simp add: getFeedActivities_def catchDefault_def)

lemma following_query_fails_thrice:
  assumes "faults s = Some e1 # Some e2 # Some e3 # rest"
    and "isNetworkError e1" and "isNetworkError e2"
  shows "getFeedActivities connected userId s = (Resolved [], s\<lparr>faults := rest\<rparr>)"
proof -
  let ?op = "getDocs (\<lambda>s. following s userId)"
  let ?s1 = "s\<lparr>faults := Some e2 # Some e3 # rest\<rparr>"
  let ?s2 = "s\<lparr>faults := Some e3 # rest\<rparr>"
  have 1: "?op s = (Rejected e1, ?s1)"
    by (rule getDocs_rejected) (rule assms(1))
  have "?op ?s1 = (Rejected e2, ?s1\<lparr>faults := Some e3 # rest\<rparr>)"
    by (rule getDocs_rejected) simp
  then have 2: "?op ?s1 = (Rejected e2, ?s2)"
    by simp
  have "?op ?s2 = (Rejected e3, ?s2\<lparr>faults := rest\<rparr>)"
    by (rule getDocs_rejected) simp
  then have 3: "?op ?s2 = (Rejected e3, s\<lparr>faults := rest\<rparr>)"
    by simp
  from executeWithRetry_third_attempt [where operation = ?op, OF 1 assms(2) 2 assms(3) 3]
  have "getFollowingUsers connected userId s = (Resolved [], s\<lparr>faults := rest\<rparr>)"
    by (simp add: getFollowingUsers_def catchDefault_def)
  then have "getFeedActivities_operation connected userId s
               = (Resolved [], s\<lparr>faults := rest\<rparr>)"
    by (simp add: getFeedActivities_operation_def)
  from executeWithRetry_resolves
    [where operation = "getFeedActivities_operation connected userId", OF this]
  show ?thesis
    by (simp add: getFeedActivities_def catchDefault_def)
qed

lemma concerts_query_fails_thrice:
  assumes "faults s = None # Some e1 # None # Some e2 # None # Some e3 # rest"
    and "isNetworkError e1" and "isNetworkError e2" and "following s userId \<noteq> []"
  shows "getFeedActivities connected userId s = (Resolved [], s\<lparr>faults := rest\<rparr>)"
proof -
  let ?op = "getFeedActivities_operation connected userId"
  let ?s1 = "s\<lparr>faults := None # Some e2 # None # Some e3 # rest\<rparr>"
  let ?s2 = "s\<lparr>faults := None # Some e3 # rest\<rparr>"
  have 1: "?op s = (Rejected e1, ?s1)"
    by (rule concerts_query_fails) (rule assms)+
  have "?op ?s1 = (Rejected e2, ?s1\<lparr>faults := None # Some e3 # rest\<rparr>)"
    by (rule concerts_query_fails) (simp_all add: assms(4))
  then have 2: "?op ?s1 = (Rejected e2, ?s2)"
    by simp
  have "?op ?s2 = (Rejected e3, ?s2\<lparr>faults := rest\<rparr>)"
    by (rule concerts_query_fails) (simp_all add: assms(4))
  then have 3: "?op ?s2 = (Rejected e3, s\<lparr>faults := rest\<rparr>)"
    by simp
  from 1 assms(2) 2 assms(3) 3 show ?thesis
    by (rule getFeedActivities_three_attempts)
qed

lemma flaky_feed_store_facts:
  "faults flaky_feed_store = [None, Some unavailable]"
  "following flaky_feed_store ''b'' \<noteq> []"
  "flaky_feed_store\<lparr>faults := []\<rparr> = following_store"
  by (simp_all add: flaky_feed_store_def following_store_def example_store_def)

text \<open>
  C5 as stated fails: \<open>b\<close> follows \<open>ab\<close>, the request for the followed users is answered
  and the query for their concerts fails with \<^verbatim>\<open>unavailable\<close>, so the pipeline fails, with
  that error. \<^verbatim>\<open>executeWithRetry\<close> classifies the error as transient and runs the pipeline
  again, the second attempt succeeds, and the call resolves with the two activities of
  \<open>ab\<close>, not with the empty list.
\<close>

theorem getFeedActivities_transient_failure_counterexample:
  "faults flaky_feed_store = [None, Some unavailable]
   \<and> fst (getFeedActivities_operation connected ''b'' flaky_feed_store) = Rejected unavailable
   \<and> failedRequests flaky_feed_store (snd (getFeedActivities connected ''b'' flaky_feed_store))
       = [unavailable]
   \<and> fst (getFeedActivities connected ''b'' flaky_feed_store)
       = Resolved
          [\<lparr>item_id = ''review_r1'', item_type = review_posted, item_userId = ''ab'',
            item_userDisplayName = ''ann'', item_concertId = ''c1'',
            item_concertName = ''Unknown Artist at Unknown Venue'',
            item_artistName = ''Unknown Artist'', item_venueName = ''Unknown Venue'',
            item_reviewId = Some ''r1'', item_timestamp = 20\<rparr>,
           \<lparr>item_id = ''concert_c1'', item_type = concert_logged, item_userId = ''ab'',
            item_userDisplayName = ''ann'', item_concertId = ''c1'',
            item_concertName = ''undefined at undefined'',
            item_artistName = ''Unknown Artist'', item_venueName = ''Unknown Venue'',
            item_reviewId = None, item_timestamp = 10\<rparr>]"
proof -
  note f = flaky_feed_store_facts
  from concerts_query_fails [OF f(1,2)]
  have first: "getFeedActivities_operation connected ''b'' flaky_feed_store
                 = (Rejected unavailable, following_store)"
    by (simp add: f(3))
  from getFeedActivities_retried [OF f(1) example_errors(1) f(2)]
  have "getFeedActivities connected ''b'' flaky_feed_store
          = getFeedActivities connected ''b'' following_store"
    by (simp add: f(3))
  moreover have "failedRequests flaky_feed_store following_store = [unavailable]"
    by (simp add: failedRequests_def flaky_feed_store_def following_store_def example_store_def)
  ultimately show ?thesis
    using first by (simp add: following_store_feed f(1))
qed

text \<open>
  C5, amended. In the connected state, whatever the backend rejects:
  \<^item> \<^verbatim>\<open>getFeedActivities\<close> resolves, with at most 30 items in the order of non-increasing
    timestamp;
  \<^item> for a user who follows nobody it resolves with the empty list;
  \<^item> when the retry-wrapped pipeline rejects, it resolves with the empty list;
  \<^item> when requests of the call failed, wherever in the pipeline, and the last of them to
    fail did so with an error that is not transient-classified, it resolves with the
    empty list;
  \<^item> an attempt of the pipeline rejects only with the error of the last of its requests
    that failed;
  \<^item> when three attempts in a row reject, the first two with transient-classified errors,
    it resolves with the empty list: so when the query for the concerts fails in three
    attempts, and when the request for the followed users fails three times;
  \<^item> when the query for the concerts fails once with a transient-classified error and no
    other request fails, it resolves with what it resolves with when no request fails.
\<close>

theorem getFeedActivities_best_effort:
  "(\<exists>items s'. getFeedActivities connected userId s = (Resolved items, s') \<and>
      length items \<le> 30 \<and>
      sorted_wrt (\<lambda>a b. item_timestamp b \<le> item_timestamp a) items)
   \<and> (following s userId = [] \<longrightarrow> fst (getFeedActivities connected userId s) = Resolved [])
   \<and> (\<forall>e s'. executeWithRetry connected (getFeedActivities_operation connected userId) s
                 = (Rejected e, s') \<longrightarrow>
        getFeedActivities connected userId s = (Resolved [], s'))
   \<and> (\<forall>r s'. getFeedActivities connected userId s = (r, s') \<and>
         failedRequests s s' \<noteq> [] \<and> \<not> isNetworkError (last (failedRequests s s')) \<longrightarrow>
         r = Resolved [])
   \<and> (\<forall>e s'. getFeedActivities_operation connected userId s = (Rejected e, s') \<longrightarrow>
         failedRequests s s' \<noteq> [] \<and> last (failedRequests s s') = e)
   \<and> (\<forall>e1 s1 e2 s2 e3 s3.
         getFeedActivities_operation connected userId s = (Rejected e1, s1) \<and>
         isNetworkError e1 \<and>
         getFeedActivities_operation connected userId s1 = (Rejected e2, s2) \<and>
         isNetworkError e2 \<and>
         getFeedActivities_operation connected userId s2 = (Rejected e3, s3) \<longrightarrow>
         getFeedActivities connected userId s = (Resolved [], s3))
   \<and> (\<forall>e1 e2 e3 rest.
         faults s = None # Some e1 # None # Some e2 # None # Some e3 # rest \<and>
         isNetworkError e1 \<and> isNetworkError e2 \<and> following s userId \<noteq> [] \<longrightarrow>
         getFeedActivities connected userId s = (Resolved [], s\<lparr>faults := rest\<rparr>))
   \<and> (\<forall>e1 e2 e3 rest.
         faults s = Some e1 # Some e2 # Some e3 # rest \<and>
         isNetworkError e1 \<and> isNetworkError e2 \<longrightarrow>
         getFeedActivities connected userId s = (Resolved [], s\<lparr>faults := rest\<rparr>))
   \<and> (\<forall>e. faults s = [None, Some e] \<and> isNetworkError e \<and> following s userId \<noteq> [] \<longrightarrow>
         getFeedActivities connected userId s
           = getFeedActivities connected userId (s\<lparr>faults := []\<rparr>))"
proof (intro conjI allI impI)
  show "\<exists>items s'. getFeedActivities connected userId s = (Resolved items, s') \<and>
      length items \<le> 30 \<and>
      sorted_wrt (\<lambda>a b. item_timestamp b \<le> item_timestamp a) items"
    using getFeedActivities_resolves [of userId s] by (rule conjunct1)
next
  assume "following s userId = []"
  with getFeedActivities_resolves [of userId s]
  show "fst (getFeedActivities connected userId s) = Resolved []"
    by blast
next
  fix e s'
  assume "executeWithRetry connected (getFeedActivities_operation connected userId) s
            = (Rejected e, s')"
  then show "getFeedActivities connected userId s = (Resolved [], s')"
    by (simp add: getFeedActivities_def catchDefault_def)
next
  fix r s'
  assume "getFeedActivities connected userId s = (r, s') \<and>
         failedRequests s s' \<noteq> [] \<and> \<not> isNetworkError (last (failedRequests s s'))"
  then show "r = Resolved []"
    by (intro getFeedActivities_last_failure [of userId s r s']) simp_all
next
  fix e s'
  assume "getFeedActivities_operation connected userId s = (Rejected e, s')"
  then show "failedRequests s s' \<noteq> []"
    using getFeedActivities_operation_rejects_with_last by blast
next
  fix e s'
  assume "getFeedActivities_operation connected userId s = (Rejected e, s')"
  then show "last (failedRequests s s') = e"
    using getFeedActivities_operation_rejects_with_last by blast
next
  fix e1 s1 e2 s2 e3 s3
  assume "getFeedActivities_operation connected userId s = (Rejected e1, s1) \<and>
         isNetworkError e1 \<and>
         getFeedActivities_operation connected userId s1 = (Rejected e2, s2) \<and>
         isNetworkError e2 \<and>
         getFeedActivities_operation connected userId s2 = (Rejected e3, s3)"
  then show "getFeedActivities connected userId s = (Resolved [], s3)"
    by (intro getFeedActivities_three_attempts [of userId s e1 s1 e2 s2 e3 s3]) simp_all
next
  fix e1 e2 e3 rest
  assume "faults s = None # Some e1 # None # Some e2 # None # Some e3 # rest \<and>
         isNetworkError e1 \<and> isNetworkError e2 \<and> following s userId \<noteq> []"
  then show "getFeedActivities connected userId s = (Resolved [], s\<lparr>faults := rest\<rparr>)"
    by (intro concerts_query_fails_thrice [of s e1 e2 e3 rest userId]) simp_all
next
  fix e1 e2 e3 rest
  assume "faults s = Some e1 # Some e2 # Some e3 # rest \<and>
         isNetworkError e1 \<and> isNetworkError e2"
  then show "getFeedActivities connected userId s = (Resolved [], s\<lparr>faults := rest\<rparr>)"
    by (intro following_query_fails_thrice [of s e1 e2 e3 rest userId]) simp_all
next
  fix e
  assume "faults s = [None, Some e] \<and> isNetworkError e \<and> following s userId \<noteq> []"
  then show "getFeedActivities connected userId s
           = getFeedActivities connected userId (s\<lparr>faults := []\<rparr>)"
    by (intro getFeedActivities_retried [of s e userId]) simp_all
qed

lemma feed_store_facts:
  "faults denied_feed_store = [None, Some permission_denied]"
  "following denied_feed_store ''b'' \<noteq> []"
  "denied_feed_store\<lparr>faults := []\<rparr> = following_store"
  "faults down_feed_store
     = [None, Some unavailable, None, Some unavailable, None, Some unavailable]"
  "following down_feed_store ''b'' \<noteq> []"
  "down_feed_store\<lparr>faults := []\<rparr> = following_store"
  "faults example_store = []" "following example_store ''ab'' = []"
  by (simp_all add: denied_feed_store_def down_feed_store_def following_store_def
      example_store_def)

theorem getFeedActivities_best_effort_witness:
  "getFeedActivities connected ''ab'' example_store = (Resolved [], example_store)
   \<and> failedRequests denied_feed_store following_store = [permission_denied]
   \<and> \<not> isNetworkError permission_denied
   \<and> getFeedActivities connected ''b'' denied_feed_store = (Resolved [], following_store)
   \<and> isNetworkError unavailable
   \<and> getFeedActivities connected ''b'' down_feed_store = (Resolved [], following_store)
   \<and> getFeedActivities connected ''b'' flaky_feed_store
       = getFeedActivities connected ''b'' following_store
   \<and> length (case fst (getFeedActivities connected ''b'' following_store) of
                Resolved items \<Rightarrow> items | Rejected e \<Rightarrow> [] | Pending \<Rightarrow> []) = 2"
proof -
  note f = feed_store_facts
  have nobody: "getFeedActivities connected ''ab'' example_store = (Resolved [], example_store)"
    using getFeedActivities_best_effort [of "''ab''" example_store]
      getFeedActivities_no_faults [OF f(7), of "''ab''"] f(8)
    by simp
  have failed: "failedRequests denied_feed_store following_store = [permission_denied]"
    by (simp add: failedRequests_def denied_feed_store_def following_store_def example_store_def)
  from concerts_query_fails [OF f(1,2)]
  have "getFeedActivities_operation connected ''b'' denied_feed_store
          = (Rejected permission_denied, following_store)"
    by (simp add: f(3))
  then have "executeWithRetry connected (getFeedActivities_operation connected ''b'')
               denied_feed_store = (Rejected permission_denied, following_store)"
    by (rule executeWithRetry_rejects_at_once) (rule example_errors)
  with getFeedActivities_best_effort [of "''b''" denied_feed_store]
  have state: "snd (getFeedActivities connected ''b'' denied_feed_store) = following_store"
    by simp
  have "fst (getFeedActivities connected ''b'' denied_feed_store) = Resolved []"
    using getFeedActivities_best_effort [of "''b''" denied_feed_store] state failed
      example_errors(5)
    by (auto simp: prod_eq_iff)
  with state have denied:
    "getFeedActivities connected ''b'' denied_feed_store = (Resolved [], following_store)"
    by (simp add: prod_eq_iff)
  have down: "getFeedActivities connected ''b'' down_feed_store = (Resolved [], following_store)"
    using getFeedActivities_best_effort [of "''b''" down_feed_store] f(4,5) example_errors(1)
    by (simp add: f(6))
  have flaky: "getFeedActivities connected ''b'' flaky_feed_store
                 = getFeedActivities connected ''b'' following_store"
    using getFeedActivities_best_effort [of "''b''" flaky_feed_store]
      flaky_feed_store_facts example_errors(1)
    by simp
  from nobody failed denied down flaky example_errors(1,5) show ?thesis
    by (simp add: following_store_feed)
qed

section \<open>Concerts without names\<close>

lemma addsUnnamedConcerts_same: "concerts s' = concerts s \<Longrightarrow> addsUnnamedConcerts s s'"
  by (simp add: addsUnnamedConcerts_def unnamed_def)

lemma addsUnnamedConcerts_refl [simp]: "addsUnnamedConcerts s s"
  by (rule addsUnnamedConcerts_same) simp

lemma addsUnnamedConcerts_trans:
  "addsUnnamedConcerts s s' \<Longrightarrow> addsUnnamedConcerts s' s'' \<Longrightarrow> addsUnnamedConcerts s s''"
  by (auto simp: addsUnnamedConcerts_def unnamed_def)

lemma await_adds:
  assumes "addsUnnamedConcerts s (snd m)"
    and "\<And>a. fst m = Resolved a \<Longrightarrow> addsUnnamedConcerts (snd m) (snd (k a (snd m)))"
  shows "addsUnnamedConcerts s (snd (await m k))"
  using assms
  by (cases m; cases "fst m") (auto simp: await_def intro: addsUnnamedConcerts_trans)

lemma backend_adds:
  assumes "\<And>a x b. request a = Inr (x, b) \<Longrightarrow> addsUnnamedConcerts a b"
  shows "addsUnnamedConcerts s (snd (backend request s))"
proof (cases "backend request s")
  case (Pair r s')
  from backend_store [OF Pair] show ?thesis
  proof
    assume "s' = afterRequest s"
    with Pair show ?thesis by (simp add: addsUnnamedConcerts_same)
  next
    assume "\<exists>x. request (afterRequest s) = Inr (x, s')"
    then obtain x where "request (afterRequest s) = Inr (x, s')" ..
    from assms [OF this] have "addsUnnamedConcerts (afterRequest s) s'" .
    with Pair show ?thesis by (simp add: addsUnnamedConcerts_def)
  qed
qed

lemma getDocs_adds: "addsUnnamedConcerts s (snd (getDocs q s))"
  unfolding getDocs_def by (rule backend_adds) (auto intro: addsUnnamedConcerts_same)

lemma addDoc_artists_adds: "addsUnnamedConcerts s (snd (addDoc_artists d s))"
  unfolding addDoc_artists_def
  by (rule backend_adds) (auto simp: autoId_def intro: addsUnnamedConcerts_same)

lemma addDoc_venues_adds: "addsUnnamedConcerts s (snd (addDoc_venues d s))"
  unfolding addDoc_venues_def
  by (rule backend_adds) (auto simp: autoId_def intro: addsUnnamedConcerts_same)

lemma addDoc_concerts_adds:
  "concert_artistName d = None \<Longrightarrow> concert_venueName d = None \<Longrightarrow>
     addsUnnamedConcerts s (snd (addDoc_concerts d s))"
  unfolding addDoc_concerts_def
  by (rule backend_adds) (auto simp: autoId_def addsUnnamedConcerts_def unnamed_def)

lemma updateDoc_adds: "addsUnnamedConcerts s (snd (updateDoc_loggedConcertsCount userId s))"
  unfolding updateDoc_loggedConcertsCount_def
  by (rule backend_adds) (auto intro: addsUnnamedConcerts_same split: option.splits)

lemma executeWithRetry_adds:
  assumes "\<And>a. addsUnnamedConcerts a (snd (operation a))"
  shows "addsUnnamedConcerts s (snd (executeWithRetry cs operation s))"
proof (cases "executeWithRetry cs operation s")
  case (Pair r s')
  have "addsUnnamedConcerts s s' \<and>
        (\<forall>x. r = Resolved x \<longrightarrow> (\<exists>s1. addsUnnamedConcerts s s1 \<and> operation s1 = (Resolved x, s')))"
  proof (rule executeWithRetry_invariant [where I = "addsUnnamedConcerts s", OF _ _ Pair])
    show "addsUnnamedConcerts s s"
      by (simp add: addsUnnamedConcerts_same)
  next
    fix a r b
    assume "addsUnnamedConcerts s a" and "operation a = (r, b)"
    with assms [of a] show "addsUnnamedConcerts s b"
      by (auto intro: addsUnnamedConcerts_trans)
  qed
  with Pair show ?thesis by simp
qed

lemma findOrCreateArtist_adds: "addsUnnamedConcerts s (snd (findOrCreateArtist cs artistName s))"
  unfolding findOrCreateArtist_def
proof (rule executeWithRetry_adds)
  fix a
  show "addsUnnamedConcerts a (snd (findOrCreateArtist_operation artistName a))"
    unfolding findOrCreateArtist_operation_def
    by (rule await_adds, rule getDocs_adds)
      (auto split: list.splits intro!: await_adds addDoc_artists_adds)
qed

lemma findOrCreateVenue_adds: "addsUnnamedConcerts s (snd (findOrCreateVenue cs venueName s))"
  unfolding findOrCreateVenue_def
proof (rule executeWithRetry_adds)
  fix a
  show "addsUnnamedConcerts a (snd (findOrCreateVenue_operation venueName a))"
    unfolding findOrCreateVenue_operation_def
    by (rule await_adds, rule getDocs_adds)
      (auto split: list.splits intro!: await_adds addDoc_venues_adds)
qed

lemma logConcert_adds:
  "addsUnnamedConcerts s (snd (logConcert cs userId artistName venueName date rating notes s))"
  unfolding logConcert_def
proof (rule executeWithRetry_adds)
  fix a
  show "addsUnnamedConcerts a
          (snd (logConcert_operation cs userId artistName venueName date rating notes a))"
    unfolding logConcert_operation_def Let_def logConcertLogged_def
    by (intro await_adds findOrCreateArtist_adds findOrCreateVenue_adds addDoc_concerts_adds
        updateDoc_adds)
      simp_all
qed

lemma concertsInRange_has_field:
  assumes "(k, d) \<in> set (concertsInRange field searchTerm s)"
  shows "(k, d) \<in> set (concerts s) \<and> field d \<noteq> None"
proof -
  from assms have "(k, d) \<in> snd ` set (List.map_filter
          (\<lambda>(k, d). case field d of
                       None \<Rightarrow> None
                     | Some v \<Rightarrow> if inPrefixRange searchTerm v then Some (v, (k, d)) else None)
          (concerts s))"
    unfolding concertsInRange_def by (auto dest!: in_set_takeD)
  then show ?thesis
    by (auto simp: List.map_filter_def split: option.splits if_splits)
qed

lemma set_foldl_pushUnlessFound:
  "set (foldl pushUnlessFound found extra) \<subseteq> set found \<union> set extra"
proof (induction extra arbitrary: found)
  case Nil
  show ?case by simp
next
  case (Cons x extra)
  have "set (pushUnlessFound found x) \<subseteq> set found \<union> {x}"
    by (auto simp: pushUnlessFound_def)
  with Cons.IH [of "pushUnlessFound found x"] show ?case by auto
qed

lemma searchConcerts_result:
  assumes "searchConcerts searchTerm s = (r, s')"
  shows "\<exists>found. r = Resolved found \<and>
           (\<forall>k d. (k, d) \<in> set found \<longrightarrow>
              (k, d) \<in> set (concerts s) \<and>
              (concert_artistName d \<noteq> None \<or> concert_venueName d \<noteq> None))"
proof -
  obtain r1 s1 where g1: "getDocs (concertsInRange concert_artistName searchTerm) s = (r1, s1)"
    by (cases "getDocs (concertsInRange concert_artistName searchTerm) s")
  have s1: "s1 = afterRequest s" and np1: "r1 \<noteq> Pending"
    using getDocs_store [OF g1]
      getDocs_not_Pending [of "concertsInRange concert_artistName searchTerm" s] g1 by auto
  show ?thesis
  proof (cases r1)
    case Pending
    with np1 show ?thesis by simp
  next
    case (Rejected e)
    with assms g1 show ?thesis
      by (auto simp: searchConcerts_def catchDefault_def)
  next
    case q1: (Resolved querySnapshot)
    with g1 have snap1: "querySnapshot = concertsInRange concert_artistName searchTerm (afterRequest s)"
      by (simp add: getDocs_Resolved)
    obtain r2 s2 where g2: "getDocs (concertsInRange concert_venueName searchTerm) s1 = (r2, s2)"
      by (cases "getDocs (concertsInRange concert_venueName searchTerm) s1")
    have np2: "r2 \<noteq> Pending"
      using getDocs_not_Pending [of "concertsInRange concert_venueName searchTerm" s1] g2 by auto
    show ?thesis
    proof (cases r2)
      case Pending
      with np2 show ?thesis by simp
    next
      case (Rejected e)
      with assms g1 q1 g2 show ?thesis
        by (auto simp: searchConcerts_def catchDefault_def)
    next
      case q2: (Resolved venueSnapshot)
      with g2 s1 have snap2:
        "venueSnapshot = concertsInRange concert_venueName searchTerm (afterRequest (afterRequest s))"
        by (simp add: getDocs_Resolved)
      from assms g1 q1 g2 q2
      have r: "r = Resolved (take 10 (foldl pushUnlessFound querySnapshot venueSnapshot))"
        by (auto simp: searchConcerts_def catchDefault_def)
      have "(k, d) \<in> set (concerts s) \<and>
            (concert_artistName d \<noteq> None \<or> concert_venueName d \<noteq> None)"
        if "(k, d) \<in> set (take 10 (foldl pushUnlessFound querySnapshot venueSnapshot))" for k d
      proof -
        from that have "(k, d) \<in> set querySnapshot \<or> (k, d) \<in> set venueSnapshot"
          using set_foldl_pushUnlessFound [of querySnapshot venueSnapshot]
          by (auto dest!: in_set_takeD)
        then show ?thesis
          unfolding snap1 snap2 by (auto dest!: concertsInRange_has_field)
      qed
      with r show ?thesis by blast
    qed
  qed
qed

lemma concertActivity_unknown:
  "concert_artistName d = None \<Longrightarrow> concert_venueName d = None \<Longrightarrow>
     item_artistName (concertActivity k d n) = ''Unknown Artist'' \<and>
     item_venueName (concertActivity k d n) = ''Unknown Venue''"
  by (simp add: concertActivity_def orElse_def)

lemma getFeedActivities_concert_items:
  assumes "getFeedActivities connected userId s = (Resolved items, s')"
    and "item \<in> set items" and "item_type item = concert_logged"
  shows "\<exists>k d n. (k, d) \<in> set (concerts s) \<and> item = concertActivity k d n"
proof -
  let ?op = "getFeedActivities_operation connected userId"
  obtain r0 where run: "executeWithRetry connected ?op s = (r0, s')"
    and r0: "r0 = Resolved items \<or> items = []"
    using assms(1)
    by (cases "executeWithRetry connected ?op s"; cases "fst (executeWithRetry connected ?op s)")
      (auto simp: getFeedActivities_def catchDefault_def)
  with assms(2) have r0: "r0 = Resolved items" by auto
  have "sameDocuments s s' \<and>
        (\<forall>x. r0 = Resolved x \<longrightarrow> (\<exists>s1. sameDocuments s s1 \<and> ?op s1 = (Resolved x, s')))"
  proof (rule executeWithRetry_invariant [where I = "sameDocuments s", OF _ _ run])
    fix a r b
    assume "sameDocuments s a" and "?op a = (r, b)"
    with getFeedActivities_operation_result [of connected userId a r b]
    show "sameDocuments s b" by (blast intro: sameDocuments_trans)
  qed simp
  with r0 obtain s1 where s1: "sameDocuments s s1" "?op s1 = (Resolved items, s')"
    by blast
  from getFeedActivities_operation_result [OF s1(2)] assms(2,3) sameDocuments_fields(2) [OF s1(1)]
  show ?thesis by auto
qed

lemma example_search:
  "searchConcerts ''The'' example_store = (Resolved [], example_store)"
  by (simp add: searchConcerts_def catchDefault_def getDocs_no_faults example_facts)
    (simp add: concertsInRange_def example_store_def pushUnlessFound_def)

lemma named_store_search:
  "fst (searchConcerts ''The'' named_store)
     = Resolved [(''c2'', \<lparr>concert_artistRef = ''artists/a1'', concert_venueRef = ''venues/v1'',
                  concert_date = 6, concert_userRef = ''users/b'', concert_rating = 4,
                  concert_notes = [], concert_createdAt = 30, concert_updatedAt = 30,
                  concert_artistName = Some ''The Band'',
                  concert_venueName = Some ''The Venue''\<rparr>)]"
proof -
  have f: "faults named_store = []"
    by (simp add: named_store_def example_store_def)
  show ?thesis
    by (simp add: searchConcerts_def catchDefault_def getDocs_no_faults f)
      (simp add: concertsInRange_def named_store_def example_store_def pushUnlessFound_def
        inPrefixRange_def)
qed

text \<open>
  C10. Whatever \<^verbatim>\<open>logConcert\<close> does (in any connection state, whatever the backend rejects,
  however it ends), the concerts of the store afterwards are the former ones followed by
  documents that have neither an \<^verbatim>\<open>artistName\<close> nor a \<^verbatim>\<open>venueName\<close> field. For a concert
  document without the two fields: \<^verbatim>\<open>searchConcerts\<close> resolves for every search term, and
  never with that document among its results; and the feed item built from it has the
  artist name \<^verbatim>\<open>Unknown Artist\<close> and the venue name \<^verbatim>\<open>Unknown Venue\<close>. Every item of type
  \<^verbatim>\<open>concert_logged\<close> that \<^verbatim>\<open>getFeedActivities\<close> returns is built in this way from a concert
  document of the store.
\<close>

theorem logged_concerts_carry_no_names:
  "(\<exists>new. concerts (snd (logConcert cs userId artistName venueName date rating notes s))
             = concerts s @ new \<and>
           (\<forall>k d. (k, d) \<in> set new \<longrightarrow>
              concert_artistName d = None \<and> concert_venueName d = None))
   \<and> (concert_artistName d = None \<and> concert_venueName d = None \<longrightarrow>
        (\<forall>searchTerm. \<exists>found s'.
           searchConcerts searchTerm s = (Resolved found, s') \<and> (k, d) \<notin> set found) \<and>
        (\<forall>n. item_artistName (concertActivity k d n) = ''Unknown Artist'' \<and>
             item_venueName (concertActivity k d n) = ''Unknown Venue''))
   \<and> (\<forall>reader items s' item.
         getFeedActivities connected reader s = (Resolved items, s') \<and>
         item \<in> set items \<and> item_type item = concert_logged \<longrightarrow>
         (\<exists>k d n. (k, d) \<in> set (concerts s) \<and> item = concertActivity k d n))"
proof (intro conjI allI impI)
  from logConcert_adds [of s cs userId artistName venueName date rating "notes"]
  show "\<exists>new. concerts (snd (logConcert cs userId artistName venueName date rating notes s))
             = concerts s @ new \<and>
           (\<forall>k d. (k, d) \<in> set new \<longrightarrow>
              concert_artistName d = None \<and> concert_venueName d = None)"
    by (auto simp: addsUnnamedConcerts_def unnamed_def list_all_iff)
next
  fix searchTerm
  assume none: "concert_artistName d = None \<and> concert_venueName d = None"
  obtain r s' where run: "searchConcerts searchTerm s = (r, s')"
    by (cases "searchConcerts searchTerm s")
  from searchConcerts_result [OF run] obtain found where found: "r = Resolved found"
    "\<forall>k d. (k, d) \<in> set found \<longrightarrow>
       (k, d) \<in> set (concerts s) \<and>
       (concert_artistName d \<noteq> None \<or> concert_venueName d \<noteq> None)"
    by blast
  from found(2) none have "(k, d) \<notin> set found" by blast
  with run found(1)
  show "\<exists>found s'. searchConcerts searchTerm s = (Resolved found, s') \<and> (k, d) \<notin> set found"
    by blast
next
  fix n
  assume "concert_artistName d = None \<and> concert_venueName d = None"
  then show "item_artistName (concertActivity k d n) = ''Unknown Artist''"
    and "item_venueName (concertActivity k d n) = ''Unknown Venue''"
    by (simp_all add: concertActivity_unknown)
next
  fix reader items s' item
  assume "getFeedActivities connected reader s = (Resolved items, s') \<and>
         item \<in> set items \<and> item_type item = concert_logged"
  then show "\<exists>k d n. (k, d) \<in> set (concerts s) \<and> item = concertActivity k d n"
    using getFeedActivities_concert_items by blast
qed

theorem logged_concerts_carry_no_names_witness:
  "list_all (\<lambda>(k, d). concert_artistName d = None \<and> concert_venueName d = None)
     (concerts (snd (logConcert connected ''u1'' ''The Band'' ''The Venue'' 5 5 None fresh_store)))
   \<and> length (concerts (snd (logConcert connected ''u1'' ''The Band'' ''The Venue'' 5 5 None
               fresh_store))) = 1
   \<and> searchConcerts ''The'' example_store = (Resolved [], example_store)
   \<and> fst (searchConcerts ''The'' named_store)
       = Resolved [(''c2'', \<lparr>concert_artistRef = ''artists/a1'', concert_venueRef = ''venues/v1'',
                  concert_date = 6, concert_userRef = ''users/b'', concert_rating = 4,
                  concert_notes = [], concert_createdAt = 30, concert_updatedAt = 30,
                  concert_artistName = Some ''The Band'',
                  concert_venueName = Some ''The Venue''\<rparr>)]
   \<and> map (\<lambda>item. (item_type item, item_artistName item, item_venueName item))
         (case fst (getFeedActivities connected ''b'' following_store) of
            Resolved items \<Rightarrow> items | Rejected e \<Rightarrow> [] | Pending \<Rightarrow> [])
       = [(review_posted, ''Unknown Artist'', ''Unknown Venue''),
          (concert_logged, ''Unknown Artist'', ''Unknown Venue'')]"
proof -
  let ?c1 = "\<lparr>concert_artistRef = ''artists/a1'', concert_venueRef = ''venues/v1'',
              concert_date = 5, concert_userRef = ''users/ab'', concert_rating = 5,
              concert_notes = ''great show'', concert_createdAt = 10,
              concert_updatedAt = 10, concert_artistName = None,
              concert_venueName = None\<rparr>"
  note t = logged_concerts_carry_no_names [of connected "''u1''" "''The Band''" "''The Venue''" 5 5
      None fresh_store ?c1 "''c1''"]
  have fresh: "concerts fresh_store = []"
    by (simp add: fresh_store_def)
  from t obtain new where new:
    "concerts (snd (logConcert connected ''u1'' ''The Band'' ''The Venue'' 5 5 None fresh_store))
       = new"
    "\<forall>k d. (k, d) \<in> set new \<longrightarrow> concert_artistName d = None \<and> concert_venueName d = None"
    unfolding fresh by auto
  from fresh_store_one_concert
  have one: "length (concerts (snd (logConcert connected ''u1'' ''The Band'' ''The Venue'' 5 5 None
               fresh_store))) = 1" .
  from new have "list_all (\<lambda>(k, d). concert_artistName d = None \<and> concert_venueName d = None)
     (concerts (snd (logConcert connected ''u1'' ''The Band'' ''The Venue'' 5 5 None fresh_store)))"
    by (auto simp: list_all_iff)
  moreover
  from logged_concerts_carry_no_names [of connected "''u1''" "''The Band''" "''The Venue''" 5 5
      None example_store ?c1 "''c1''"]
  have "item_artistName (concertActivity ''c1'' ?c1 ''ann'') = ''Unknown Artist''"
    "item_venueName (concertActivity ''c1'' ?c1 ''ann'') = ''Unknown Venue''"
    by simp_all
  ultimately show ?thesis
    using one example_search named_store_search following_store_feed by simp
qed

end
